theory Spec2Isabelle
  imports Main "HOL-Library.AList" "HOL-Library.Sublist"
begin

section \<open>Python strings\<close>

text \<open>
  A Python \<open>str\<close> is modelled as a \<open>string\<close>; every character stands for one code point
  below 256. The functions of this section are the \<open>str\<close> methods the two source files
  call, with the behaviour of CPython.
\<close>

definition nl :: char where
  "nl = CHR 0x0A"

text \<open>\<open>str.isspace\<close> on one character, which is also what \<open>\s\<close> matches in a \<open>str\<close> pattern.\<close>

definition is_space :: "char \<Rightarrow> bool" where
  "is_space c \<longleftrightarrow> c \<in> set [CHR 0x09, CHR 0x0A, CHR 0x0B, CHR 0x0C, CHR 0x0D,
     CHR 0x1C, CHR 0x1D, CHR 0x1E, CHR 0x1F, CHR 0x20, CHR 0x85, CHR 0xA0]"

text \<open>\<open>s.strip()\<close>\<close>

definition strip :: "string \<Rightarrow> string" where
  "strip s = rev (dropWhile is_space (rev (dropWhile is_space s)))"

text \<open>\<open>sub in s\<close>\<close>

fun contains :: "string \<Rightarrow> string \<Rightarrow> bool" where
  "contains sub [] = (sub = [])"
| "contains sub (c # cs) = (prefix sub (c # cs) \<or> contains sub cs)"

text \<open>
  \<open>s.split(sep)\<close> for a non-empty separator: the text is scanned from the left and cut at
  every occurrence of \<open>sep\<close> that does not overlap the previous one.
\<close>

function split_str :: "string \<Rightarrow> string \<Rightarrow> string list" where
  "split_str sep [] = [[]]"
| "split_str sep (c # cs) =
     (if sep \<noteq> [] \<and> prefix sep (c # cs) then [] # split_str sep (drop (length sep) (c # cs))
      else (case split_str sep cs of
              [] \<Rightarrow> [[c]]
            | x # xs \<Rightarrow> (c # x) # xs))"
  by pat_completeness auto
termination
  by (relation "measure (\<lambda>(sep, s). length s)") (auto simp: neq_Nil_conv)

text \<open>
  \<open>s.split("\n", 1)\<close>: at most one cut, at the first line feed. The result has one element
  when there is no line feed and two otherwise.
\<close>

definition split_nl_1 :: "string \<Rightarrow> string list" where
  "split_nl_1 s =
     (if nl \<in> set s then [takeWhile (\<lambda>c. c \<noteq> nl) s, tl (dropWhile (\<lambda>c. c \<noteq> nl) s)]
      else [s])"

text \<open>\<open>sep.join(xs)\<close>\<close>

fun join :: "string \<Rightarrow> string list \<Rightarrow> string" where
  "join sep [] = []"
| "join sep [x] = x"
| "join sep (x # y # ys) = x @ sep @ join sep (y # ys)"

section \<open>Exceptions\<close>

text \<open>
  Every \<open>raise\<close> of the source, and every exception raised by an operation it uses, is a
  value of \<open>exn\<close>; a function that can raise returns \<open>exn + 'a\<close>.
  \<open>Raised\<close> is an exception of a collaborator that is not part of the two source files.
\<close>

datatype exn =
    ValueError string
  | SyntaxError string
  | IndexError
  | AttributeError
  | Exception string
  | Raised string

section \<open>Block segmentation\<close>

text \<open>
  A Python \<open>dict\<close> with string keys is an association list in insertion order;
  \<open>d[k] = v\<close> is \<open>AList.update k v d\<close>, which overwrites in place or appends.
\<close>

type_synonym 'v dict = "(string \<times> 'v) list"

text \<open>
  One round of the loop of \<open>OutputParser.parse_blocks\<close>. Unpacking the result of
  \<open>split\<close> into two names raises ValueError when there is no line feed, and
  \<open>block_title[-1]\<close> raises IndexError on an empty title.
\<close>

definition OutputParser_parse_blocks_step :: "string \<Rightarrow> string dict \<Rightarrow> exn + string dict" where
  "OutputParser_parse_blocks_step block block_dict =
     (if strip block \<noteq> [] then
        (case split_nl_1 block of
           [block_title, block_content] \<Rightarrow>
             (if block_title = [] then Inl IndexError
              else
                let block_title' = (if last block_title = CHR '':'' then butlast block_title
                                   else block_title)
                in Inr (AList.update (strip block_title') (strip block_content) block_dict))
         | _ \<Rightarrow> Inl (ValueError ''not enough values to unpack (expected 2, got 1)''))
      else Inr block_dict)"

fun OutputParser_parse_blocks_loop :: "string list \<Rightarrow> string dict \<Rightarrow> exn + string dict" where
  "OutputParser_parse_blocks_loop [] block_dict = Inr block_dict"
| "OutputParser_parse_blocks_loop (block # blocks) block_dict =
     (case OutputParser_parse_blocks_step block block_dict of
        Inl e \<Rightarrow> Inl e
      | Inr block_dict' \<Rightarrow> OutputParser_parse_blocks_loop blocks block_dict')"

definition OutputParser_parse_blocks :: "string \<Rightarrow> exn + string dict" where
  "OutputParser_parse_blocks text = OutputParser_parse_blocks_loop (split_str ''##'' text) []"

text \<open>One round of the loop of \<open>CodeParser.parse_blocks\<close>, which cannot raise.\<close>

definition CodeParser_parse_blocks_step :: "string \<Rightarrow> string dict \<Rightarrow> string dict" where
  "CodeParser_parse_blocks_step block block_dict =
     (if strip block = [] then block_dict
      else
        let (block_title, block_content) =
              (if nl \<notin> set block then (block, [])
               else (case split_nl_1 block of
                       [t, b] \<Rightarrow> (t, b)
                     | _ \<Rightarrow> (block, [])))
        in AList.update (strip block_title) (strip block_content) block_dict)"

fun CodeParser_parse_blocks_loop :: "string list \<Rightarrow> string dict \<Rightarrow> string dict" where
  "CodeParser_parse_blocks_loop [] block_dict = block_dict"
| "CodeParser_parse_blocks_loop (block # blocks) block_dict =
     CodeParser_parse_blocks_loop blocks (CodeParser_parse_blocks_step block block_dict)"

definition CodeParser_parse_blocks :: "string \<Rightarrow> string dict" where
  "CodeParser_parse_blocks text = CodeParser_parse_blocks_loop (split_str ''##'' text) []"

section \<open>Fenced code\<close>

text \<open>
  The pattern of \<open>parse_code\<close> is \<open>```{lang}.*?\s+(.*?)```\<close>, searched with DOTALL.
  The language tag is interpolated into the pattern as it is. When no character of the
  tag is special in a pattern, the pattern begins with the three backquotes and the tag
  as literal text. For any other tag the pattern is a different regular expression, or
  none at all (\<open>re.error\<close>); the model gives no result for such a tag.
\<close>

definition fence :: string where
  "fence = ''```''"

definition plain_tag :: "string \<Rightarrow> bool" where
  "plain_tag tag \<longleftrightarrow>
     list_all (\<lambda>c. c \<notin> set (''.^$*+?{}[]|()'' @ [CHR 0x5C])) tag"

definition code_pattern_start :: "string \<Rightarrow> string option" where
  "code_pattern_start lang = (if plain_tag lang then Some (fence @ lang) else None)"

text \<open>
  The search is modelled by one function for each piece of the pattern, each trying its
  alternatives in the order of the backtracking matcher of \<open>re\<close> and returning the text of
  group 1 of the first success.
\<close>

text \<open>\<open>(.*?)```\<close>: the lazy group grows one character at a time until a fence follows.\<close>

fun re_code_group :: "string \<Rightarrow> string option" where
  "re_code_group [] = None"
| "re_code_group (c # cs) =
     (if prefix fence (c # cs) then Some []
      else map_option ((#) c) (re_code_group cs))"

text \<open>\<open>\s+\<close> and what follows it: greedy, so a longer run of white space is tried first.\<close>

fun re_code_spaces :: "string \<Rightarrow> string option" where
  "re_code_spaces [] = None"
| "re_code_spaces (c # cs) =
     (if is_space c then
        (case re_code_spaces cs of
           Some code \<Rightarrow> Some code
         | None \<Rightarrow> re_code_group cs)
      else None)"

text \<open>\<open>.*?\<close> and what follows it: lazy, so skipping fewer characters is tried first.\<close>

fun re_code_skip :: "string \<Rightarrow> string option" where
  "re_code_skip [] = None"
| "re_code_skip (c # cs) =
     (case re_code_spaces (c # cs) of
        Some code \<Rightarrow> Some code
      | None \<Rightarrow> re_code_skip cs)"

text \<open>
  The whole pattern at one starting position, for the literal text \<open>start\<close> the pattern
  begins with, then \<open>re.search\<close> over the positions.
\<close>

definition re_code_match :: "string \<Rightarrow> string \<Rightarrow> string option" where
  "re_code_match start s =
     (if prefix start s then re_code_skip (drop (length start) s) else None)"

fun re_code_search :: "string \<Rightarrow> string \<Rightarrow> string option" where
  "re_code_search start [] = re_code_match start []"
| "re_code_search start (c # cs) =
     (case re_code_match start (c # cs) of
        Some code \<Rightarrow> Some code
      | None \<Rightarrow> re_code_search start cs)"

text \<open>
  \<open>OutputParser.parse_code\<close>: the code, or the exception of the bare \<open>raise\<close>; no
  result for a tag that is not plain.
\<close>

definition OutputParser_parse_code :: "string \<Rightarrow> string \<Rightarrow> (exn + string) option" where
  "OutputParser_parse_code text lang =
     (case code_pattern_start lang of
        None \<Rightarrow> None
      | Some start \<Rightarrow>
          Some (case re_code_search start text of
                  Some code \<Rightarrow> Inr code
                | None \<Rightarrow> Inl (Exception [])))"

text \<open>\<open>CodeParser.parse_block\<close>: the body of the first block whose title contains \<open>block\<close>.\<close>

fun CodeParser_parse_block_loop :: "string \<Rightarrow> string dict \<Rightarrow> string" where
  "CodeParser_parse_block_loop block [] = []"
| "CodeParser_parse_block_loop block ((k, v) # blocks) =
     (if contains block k then v else CodeParser_parse_block_loop block blocks)"

definition CodeParser_parse_block :: "string \<Rightarrow> string \<Rightarrow> string" where
  "CodeParser_parse_block block text =
     CodeParser_parse_block_loop block (CodeParser_parse_blocks text)"

text \<open>
  \<open>CodeParser.parse_code\<close>: the name \<open>text\<close> is rebound to the block's body when
  \<open>block\<close> is a non-empty string, and that rebound text is what is returned when no fence
  is found. Again no result for a tag that is not plain.
\<close>

definition CodeParser_parse_code :: "string \<Rightarrow> string \<Rightarrow> string \<Rightarrow> string option" where
  "CodeParser_parse_code block text lang =
     (let text' = (if block \<noteq> [] then CodeParser_parse_block block text else text)
      in case code_pattern_start lang of
           None \<Rightarrow> None
         | Some start \<Rightarrow>
             Some (case re_code_search start text' of
                     Some code \<Rightarrow> code
                   | None \<Rightarrow> text'))"

section \<open>Tagged content\<close>

text \<open>
  \<open>extract_content\<close> searches \<open>\[{tag}\](.*?)\[/{tag}\]\<close> with DOTALL. The tag is
  interpolated as it is: for a plain tag the pattern is the opening marker, a lazy group
  and the closing marker, both markers literal text; for any other tag the model gives
  no result.
\<close>

definition tag_pattern :: "string \<Rightarrow> (string \<times> string) option" where
  "tag_pattern tag =
     (if plain_tag tag then Some (''['' @ tag @ '']'', ''[/'' @ tag @ '']'') else None)"

text \<open>\<open>(.*?)\<close> and the closing marker after it.\<close>

fun re_tag_group :: "string \<Rightarrow> string \<Rightarrow> string option" where
  "re_tag_group cls [] = (if cls = [] then Some [] else None)"
| "re_tag_group cls (c # cs) =
     (if prefix cls (c # cs) then Some []
      else map_option ((#) c) (re_tag_group cls cs))"

text \<open>The whole pattern at one starting position, then \<open>re.search\<close> over the positions.\<close>

definition re_tag_match :: "string \<Rightarrow> string \<Rightarrow> string \<Rightarrow> string option" where
  "re_tag_match opn cls s =
     (if prefix opn s then re_tag_group cls (drop (length opn) s) else None)"

fun re_tag_search :: "string \<Rightarrow> string \<Rightarrow> string \<Rightarrow> string option" where
  "re_tag_search opn cls [] = re_tag_match opn cls []"
| "re_tag_search opn cls (c # cs) =
     (case re_tag_match opn cls (c # cs) of
        Some g \<Rightarrow> Some g
      | None \<Rightarrow> re_tag_search opn cls cs)"

definition extract_content :: "string \<Rightarrow> string \<Rightarrow> string option" where
  "extract_content text tag =
     (case tag_pattern tag of
        None \<Rightarrow> None
      | Some (opn, cls) \<Rightarrow>
          Some (case re_tag_search opn cls text of
                  Some g \<Rightarrow> strip g
                | None \<Rightarrow> ''No content found between [CONTENT] and [/CONTENT] tags.''))"

section \<open>Literals\<close>

text \<open>
  The values \<open>ast.literal_eval\<close> can return. \<open>POther\<close> is a literal of a kind the
  source never inspects (a float, a complex number, bytes), kept by its text.
\<close>

datatype pyval =
    PNone
  | PBool bool
  | PInt int
  | PStr string
  | PList "pyval list"
  | PTuple "pyval list"
  | PDict "(pyval \<times> pyval) list"
  | PSet "pyval list"
  | POther string

text \<open>
  \<open>ast.literal_eval\<close> belongs to the Python library, not to the repository: every
  function that calls it takes it as the parameter \<open>literal_eval\<close>, which returns the
  value or the exception raised.
\<close>

type_synonym literal_eval = "string \<Rightarrow> exn + pyval"

text \<open>
  The pattern of \<open>parse_file_list\<close> is \<open>\s*(.*=.*)?(\[.*\])\<close>, searched with DOTALL.
  Again one function for each piece, in the order the matcher tries the alternatives;
  the result is the text of group 2.
\<close>

text \<open>\<open>.*\]\<close> at the end of the pattern: greedy, so the last closing bracket wins.\<close>

fun re_list_tail :: "string \<Rightarrow> string option" where
  "re_list_tail [] = None"
| "re_list_tail (c # cs) =
     (case re_list_tail cs of
        Some g \<Rightarrow> Some (c # g)
      | None \<Rightarrow> (if c = CHR '']'' then Some [c] else None))"

text \<open>\<open>(\[.*\])\<close>\<close>

fun re_list_group :: "string \<Rightarrow> string option" where
  "re_list_group [] = None"
| "re_list_group (c # cs) =
     (if c = CHR ''['' then map_option ((#) c) (re_list_tail cs) else None)"

text \<open>The second \<open>.*\<close> of group 1, greedy, followed by group 2.\<close>

fun re_list_after_eq :: "string \<Rightarrow> string option" where
  "re_list_after_eq [] = re_list_group []"
| "re_list_after_eq (c # cs) =
     (case re_list_after_eq cs of
        Some g \<Rightarrow> Some g
      | None \<Rightarrow> re_list_group (c # cs))"

text \<open>The first \<open>.*\<close> of group 1, greedy, followed by \<open>=\<close> and the rest.\<close>

fun re_list_before_eq :: "string \<Rightarrow> string option" where
  "re_list_before_eq [] = None"
| "re_list_before_eq (c # cs) =
     (case re_list_before_eq cs of
        Some g \<Rightarrow> Some g
      | None \<Rightarrow> (if c = CHR ''='' then re_list_after_eq cs else None))"

text \<open>\<open>(.*=.*)?(\[.*\])\<close>: the optional group is tried first, then skipped.\<close>

definition re_list_opt :: "string \<Rightarrow> string option" where
  "re_list_opt s =
     (case re_list_before_eq s of
        Some g \<Rightarrow> Some g
      | None \<Rightarrow> re_list_group s)"

text \<open>\<open>\s*\<close> and what follows it, greedy.\<close>

fun re_list_match :: "string \<Rightarrow> string option" where
  "re_list_match [] = re_list_opt []"
| "re_list_match (c # cs) =
     (if is_space c then
        (case re_list_match cs of
           Some g \<Rightarrow> Some g
         | None \<Rightarrow> re_list_opt (c # cs))
      else re_list_opt (c # cs))"

fun re_list_search :: "string \<Rightarrow> string option" where
  "re_list_search [] = re_list_match []"
| "re_list_search (c # cs) =
     (case re_list_match (c # cs) of
        Some g \<Rightarrow> Some g
      | None \<Rightarrow> re_list_search cs)"

text \<open>\<open>OutputParser.parse_file_list\<close>\<close>

definition OutputParser_parse_file_list :: "literal_eval \<Rightarrow> string \<Rightarrow> exn + pyval" where
  "OutputParser_parse_file_list literal_eval text =
     (case re_list_search text of
        Some tasks_list_str \<Rightarrow> literal_eval tasks_list_str
      | None \<Rightarrow> Inr (PList (map PStr (split_str [nl] text))))"

section \<open>Typed fields\<close>

text \<open>
  The values of the \<open>mapping\<close> argument of \<open>parse_data_with_mapping\<close>: a type
  annotation, or a tuple whose first component is one. \<open>Other\<close> is any object that is none
  of the three list annotations the source compares with.
\<close>

datatype annotation = Str | List_str | List_Tuple_str_str | List_List_str | Other string

datatype typing_define = Annotation annotation | Tuple "annotation list"

text \<open>
  One round of the loop of \<open>parse_data_with_mapping\<close>, for the item \<open>(block, content)\<close>:
  first the value that \<open>content\<close> holds at the end of the round, then the assignment to
  \<open>parsed_data[block]\<close>. Indexing an empty tuple raises IndexError; the two \<open>try\<close> blocks
  turn every exception of \<open>parse_code\<close> and \<open>parse_file_list\<close> into keeping the content.
  The tag of \<open>parse_code\<close> is the default one, the empty string, which is plain.
\<close>

definition parse_data_with_mapping_content ::
  "literal_eval \<Rightarrow> (string \<rightharpoonup> typing_define) \<Rightarrow> string \<Rightarrow> string \<Rightarrow> exn + pyval" where
  "parse_data_with_mapping_content literal_eval mapping block content =
     (let content1 = (case OutputParser_parse_code content [] of
                        Some (Inr code) \<Rightarrow> code
                      | _ \<Rightarrow> content);
          typing_define = mapping block
      in case (case typing_define of
                 Some (Tuple []) \<Rightarrow> Inl IndexError
               | Some (Tuple (t # ts)) \<Rightarrow> Inr (Some t)
               | Some (Annotation t) \<Rightarrow> Inr (Some t)
               | None \<Rightarrow> Inr None) of
           Inl e \<Rightarrow> Inl e
         | Inr typing \<Rightarrow>
             Inr (if typing = Some List_str \<or> typing = Some List_Tuple_str_str
                     \<or> typing = Some List_List_str
                  then (case OutputParser_parse_file_list literal_eval content1 of
                          Inr tasks \<Rightarrow> tasks
                        | Inl e \<Rightarrow> PStr content1)
                  else PStr content1))"

definition parse_data_with_mapping_step ::
  "literal_eval \<Rightarrow> (string \<rightharpoonup> typing_define) \<Rightarrow> string \<Rightarrow> string \<Rightarrow> pyval dict
     \<Rightarrow> exn + pyval dict" where
  "parse_data_with_mapping_step literal_eval mapping block content parsed_data =
     (case parse_data_with_mapping_content literal_eval mapping block content of
        Inl e \<Rightarrow> Inl e
      | Inr content' \<Rightarrow> Inr (AList.update block content' parsed_data))"

fun parse_data_with_mapping_loop ::
  "literal_eval \<Rightarrow> (string \<rightharpoonup> typing_define) \<Rightarrow> string dict \<Rightarrow> pyval dict
     \<Rightarrow> exn + pyval dict" where
  "parse_data_with_mapping_loop literal_eval mapping [] parsed_data = Inr parsed_data"
| "parse_data_with_mapping_loop literal_eval mapping ((block, content) # items) parsed_data =
     (case parse_data_with_mapping_step literal_eval mapping block content parsed_data of
        Inl e \<Rightarrow> Inl e
      | Inr parsed_data' \<Rightarrow>
          parse_data_with_mapping_loop literal_eval mapping items parsed_data')"

text \<open>
  \<open>parse_data_with_mapping\<close>. The tag of \<open>extract_content\<close> is the default one, which
  is plain.
\<close>

definition parse_data_with_mapping ::
  "literal_eval \<Rightarrow> string \<Rightarrow> (string \<rightharpoonup> typing_define) \<Rightarrow> (exn + pyval dict) option" where
  "parse_data_with_mapping literal_eval data mapping =
     (case extract_content data ''CONTENT'' of
        None \<Rightarrow> None
      | Some data' \<Rightarrow>
          Some (case OutputParser_parse_blocks data' of
                  Inl e \<Rightarrow> Inl e
                | Inr block_dict \<Rightarrow>
                    parse_data_with_mapping_loop literal_eval mapping block_dict []))"

section \<open>Bracketed structures\<close>

text \<open>
  The \<open>data_type\<close> argument of \<open>extract_struct\<close>: the type \<open>list\<close>, the type \<open>dict\<close>, or
  any other object, which the source treats as \<open>dict\<close> since it only tests
  \<open>data_type is list\<close>.
\<close>

datatype data_type = py_list | py_dict | py_object string

text \<open>\<open>f"{data_type}"\<close>\<close>

fun format_data_type :: "data_type \<Rightarrow> string" where
  "format_data_type py_list = ''<class 'list'>''"
| "format_data_type py_dict = ''<class 'dict'>''"
| "format_data_type (py_object s) = s"

text \<open>\<open>s.find(c)\<close> and \<open>s.rfind(c)\<close> for one character: the index, or -1.\<close>

definition find :: "string \<Rightarrow> char \<Rightarrow> int" where
  "find s c = (if c \<in> set s then int (length (takeWhile (\<lambda>x. x \<noteq> c) s)) else - 1)"

definition rfind :: "string \<Rightarrow> char \<Rightarrow> int" where
  "rfind s c =
     (if c \<in> set s then int (length s) - 1 - int (length (takeWhile (\<lambda>x. x \<noteq> c) (rev s)))
      else - 1)"

text \<open>\<open>s[i:j]\<close> for indices that are not negative.\<close>

definition slice :: "string \<Rightarrow> int \<Rightarrow> int \<Rightarrow> string" where
  "slice s i j = take (nat j - nat i) (drop (nat i) s)"

text \<open>\<open>isinstance(result, (list, dict))\<close>\<close>

fun is_list_or_dict :: "pyval \<Rightarrow> bool" where
  "is_list_or_dict (PList xs) = True"
| "is_list_or_dict (PDict kvs) = True"
| "is_list_or_dict v = False"

definition extract_struct :: "literal_eval \<Rightarrow> string \<Rightarrow> data_type \<Rightarrow> exn + pyval" where
  "extract_struct literal_eval text data_type =
     (let start_index = find text (if data_type = py_list then CHR ''['' else CHR ''{'');
          end_index = rfind text (if data_type = py_list then CHR '']'' else CHR ''}'')
      in if start_index \<noteq> - 1 \<and> end_index \<noteq> - 1 then
           let structure_text = slice text start_index (end_index + 1);
               attempt =
                 (case literal_eval structure_text of
                    Inl e \<Rightarrow> Inl e
                  | Inr result \<Rightarrow>
                      if is_list_or_dict result then Inr result
                      else Inl (ValueError (''The extracted structure is not a ''
                                  @ format_data_type data_type @ ''.'')))
           in case attempt of
                Inr result \<Rightarrow> Inr result
              | Inl (ValueError m) \<Rightarrow>
                  Inl (Exception (''Error while extracting and parsing the ''
                         @ format_data_type data_type @ '': '' @ m))
              | Inl (SyntaxError m) \<Rightarrow>
                  Inl (Exception (''Error while extracting and parsing the ''
                         @ format_data_type data_type @ '': '' @ m))
              | Inl e \<Rightarrow> Inl e
         else Inr (if data_type = py_list then PList [] else PDict []))"

section \<open>The task pipeline\<close>

record Document =
  root_path :: string
  filename :: string
  content :: string

text \<open>
  Modelled from the spec: the class \<open>FileRepository\<close> is not among the source files. A
  repository is the mapping from file name to content behind the interface of the
  specification (\<open>get(filename)\<close> gives the document or nothing, \<open>save\<close> replaces the
  content and records the dependencies).
\<close>

type_synonym files = "string \<rightharpoonup> string"

definition repo_get :: "string \<Rightarrow> files \<Rightarrow> string \<Rightarrow> Document option" where
  "repo_get root fs name =
     map_option (\<lambda>c. \<lparr>root_path = root, filename = name, content = c\<rparr>) (fs name)"

text \<open>
  Modelled from the spec: \<open>Document.root_relative_path\<close> is not among the source files;
  the identity of a document is its root path with its file name.
\<close>

definition root_relative_path :: "Document \<Rightarrow> string \<times> string" where
  "root_relative_path d = (root_path d, filename d)"

text \<open>
  What the source takes from outside the two files: the constants of \<open>metagpt.const\<close>,
  the language model behind \<open>PM_NODE.fill\<close> (given the number of calls made before and
  the context, the JSON text of the node's \<open>instruct_content\<close>, or the exception
  raised; the number lets the model answer the same context differently at different
  times), \<open>json.loads\<close> followed by the
  lookup of the package list (the strings the \<open>set\<close> is built from, or the exception
  raised), the order in which Python iterates a \<open>set\<close> built by adding the given
  strings one after the other, and the replacement of the suffix of a file name.
\<close>

record env =
  SYSTEM_DESIGN_FILE_REPO :: string
  TASK_FILE_REPO :: string
  PACKAGE_REQUIREMENTS_FILENAME :: string
  TASK_PDF_FILE_REPO :: string
  path_with_suffix :: "string \<Rightarrow> string \<Rightarrow> string"
  fill :: "nat \<Rightarrow> string \<Rightarrow> exn + string"
  required_packages :: "string \<Rightarrow> exn + string list"
  set_order :: "string list \<Rightarrow> string list"

text \<open>The calls of the two ways to produce a task document, with the context they pass on.\<close>

datatype call = Run_new_tasks string | Merge string

text \<open>
  The state the pipeline changes: the task repository with the dependencies recorded at
  each save, the repository of the project root, the exported copies by root and file
  name, and the log of the calls made so far.
\<close>

record state =
  tasks_files :: files
  tasks_dependencies :: "string \<rightharpoonup> (string \<times> string) set"
  root_files :: files
  exported_files :: "(string \<times> string) \<rightharpoonup> string"
  calls :: "call list"

text \<open>\<open>NEW_REQ_TEMPLATE.format(context=context, old_tasks=old_tasks)\<close>\<close>

definition NEW_REQ_TEMPLATE :: "string \<Rightarrow> string \<Rightarrow> string" where
  "NEW_REQ_TEMPLATE old_tasks context =
     [nl] @ ''### Legacy Content'' @ [nl] @ old_tasks @ [nl, nl]
       @ ''### New Requirements'' @ [nl] @ context @ [nl]"

text \<open>
  \<open>str.splitlines\<close>: a line ends at a line feed, a carriage return (with the line feed
  after it, if any), a vertical tab, a form feed, a file, group or record separator, or
  a next-line character; an empty last line is not reported.
\<close>

definition is_linebreak :: "char \<Rightarrow> bool" where
  "is_linebreak c \<longleftrightarrow> c \<in> set [CHR 0x0A, CHR 0x0B, CHR 0x0C, CHR 0x0D,
     CHR 0x1C, CHR 0x1D, CHR 0x1E, CHR 0x85]"

fun splitlines_from :: "string \<Rightarrow> string \<Rightarrow> string list" where
  "splitlines_from cur [] = (if cur = [] then [] else [rev cur])"
| "splitlines_from cur (c # cs) =
     (if is_linebreak c then
        (case cs of
           d # ds \<Rightarrow>
             if c = CHR 0x0D \<and> d = CHR 0x0A then rev cur # splitlines_from [] ds
             else rev cur # splitlines_from [] (d # ds)
         | [] \<Rightarrow> rev cur # splitlines_from [] [])
      else splitlines_from (c # cur) cs)"

definition splitlines :: "string \<Rightarrow> string list" where
  "splitlines s = splitlines_from [] s"

text \<open>\<open>WriteTasks._run_new_tasks\<close>\<close>

definition run_new_tasks :: "env \<Rightarrow> string \<Rightarrow> state \<Rightarrow> (exn + string) \<times> state" where
  "run_new_tasks E context st =
     (fill E (length (calls st)) context, st\<lparr>calls := calls st @ [Run_new_tasks context]\<rparr>)"

text \<open>
  \<open>WriteTasks._merge\<close>: \<open>system_design_doc.content\<close> raises AttributeError when the
  design document is \<open>None\<close>.
\<close>

definition merge :: "env \<Rightarrow> Document option \<Rightarrow> Document \<Rightarrow> state \<Rightarrow> (exn + Document) \<times> state" where
  "merge E system_design_doc task_doc st =
     (case system_design_doc of
        None \<Rightarrow> (Inl AttributeError, st)
      | Some sd \<Rightarrow>
          let context = NEW_REQ_TEMPLATE (content task_doc) (content sd);
              st' = st\<lparr>calls := calls st @ [Merge context]\<rparr>
          in (case fill E (length (calls st)) context of
                Inl e \<Rightarrow> (Inl e, st')
              | Inr json \<Rightarrow> (Inr (task_doc\<lparr>content := json\<rparr>), st')))"

text \<open>
  \<open>WriteTasks._update_requirements\<close>. The set \<open>packages\<close> is followed as the list of
  the strings added to it, in the order they are added.
\<close>

definition update_requirements :: "env \<Rightarrow> Document \<Rightarrow> state \<Rightarrow> (exn + unit) \<times> state" where
  "update_requirements E doc st =
     (case required_packages E (content doc) of
        Inl e \<Rightarrow> (Inl e, st)
      | Inr packages \<Rightarrow>
          let requirement_doc =
                (case repo_get ''.'' (root_files st) (PACKAGE_REQUIREMENTS_FILENAME E) of
                   Some d \<Rightarrow> d
                 | None \<Rightarrow> \<lparr>root_path = ''.'', filename = PACKAGE_REQUIREMENTS_FILENAME E,
                             content = []\<rparr>);
              lines = splitlines (content requirement_doc);
              packages' = packages @ filter (\<lambda>pkg. pkg \<noteq> []) lines
          in (Inr (),
              st\<lparr>root_files := (root_files st)
                    (PACKAGE_REQUIREMENTS_FILENAME E \<mapsto> join [nl] (set_order E packages'))\<rparr>))"

text \<open>
  Modelled from the spec: \<open>FileRepository.save_as\<close> is not among the source files. It
  writes the content of the document under the root \<open>relative_path\<close>, in the file whose
  name is the document's file name with its suffix replaced by \<open>with_suffix\<close>; the
  replacement of the suffix is the parameter \<open>path_with_suffix\<close> of the environment.
\<close>

definition save_as :: "env \<Rightarrow> Document \<Rightarrow> string \<Rightarrow> string \<Rightarrow> state \<Rightarrow> state" where
  "save_as E doc with_suffix relative_path st =
     st\<lparr>exported_files := (exported_files st)
           ((relative_path, path_with_suffix E (filename doc) with_suffix) \<mapsto> content doc)\<rparr>"

text \<open>\<open>WriteTasks._save_pdf\<close>\<close>

definition save_pdf :: "env \<Rightarrow> Document \<Rightarrow> state \<Rightarrow> state" where
  "save_pdf E task_doc st = save_as E task_doc ''.md'' (TASK_PDF_FILE_REPO E) st"

text \<open>
  \<open>WriteTasks._update_tasks\<close>. The repository of the system designs is only read, so
  it is an argument and not part of the state. A \<open>Document\<close> object is true in a
  condition, so \<open>if task_doc\<close> tests that the task repository has the document.
\<close>

definition update_tasks :: "env \<Rightarrow> files \<Rightarrow> string \<Rightarrow> state \<Rightarrow> (exn + Document) \<times> state" where
  "update_tasks E system_design_files name st =
     (let system_design_doc = repo_get (SYSTEM_DESIGN_FILE_REPO E) system_design_files name;
          task_doc = repo_get (TASK_FILE_REPO E) (tasks_files st) name;
          produced =
            (case task_doc of
               Some td \<Rightarrow> merge E system_design_doc td st
             | None \<Rightarrow>
                 (case system_design_doc of
                    None \<Rightarrow> (Inl AttributeError, st)
                  | Some sd \<Rightarrow>
                      (case run_new_tasks E (content sd) st of
                         (Inl e, st') \<Rightarrow> (Inl e, st')
                       | (Inr json, st') \<Rightarrow>
                           (Inr \<lparr>root_path = TASK_FILE_REPO E, filename = name,
                                 content = json\<rparr>, st'))))
      in case produced of
           (Inl e, st1) \<Rightarrow> (Inl e, st1)
         | (Inr task_doc', st1) \<Rightarrow>
             (case system_design_doc of
                None \<Rightarrow> (Inl AttributeError, st1)
              | Some sd \<Rightarrow>
                  let st2 = st1\<lparr>tasks_files := (tasks_files st1)(name \<mapsto> content task_doc'),
                               tasks_dependencies :=
                                 (tasks_dependencies st1)(name \<mapsto> {root_relative_path sd})\<rparr>
                  in (case update_requirements E task_doc' st2 of
                        (Inl e, st3) \<Rightarrow> (Inl e, st3)
                      | (Inr u, st3) \<Rightarrow> (Inr task_doc', save_pdf E task_doc' st3))))"

text \<open>The first loop of \<open>WriteTasks.run\<close>, over the changed system designs.\<close>

fun update_changed_designs ::
  "env \<Rightarrow> files \<Rightarrow> string list \<Rightarrow> Document dict \<Rightarrow> state \<Rightarrow> (exn + Document dict) \<times> state" where
  "update_changed_designs E system_design_files [] docs st = (Inr docs, st)"
| "update_changed_designs E system_design_files (name # names) docs st =
     (case update_tasks E system_design_files name st of
        (Inl e, st') \<Rightarrow> (Inl e, st')
      | (Inr task_doc, st') \<Rightarrow>
          update_changed_designs E system_design_files names (AList.update name task_doc docs) st')"

text \<open>The second loop, over the changed task files, which skips the names already done.\<close>

fun update_changed_tasks ::
  "env \<Rightarrow> files \<Rightarrow> string list \<Rightarrow> Document dict \<Rightarrow> state \<Rightarrow> (exn + Document dict) \<times> state" where
  "update_changed_tasks E system_design_files [] docs st = (Inr docs, st)"
| "update_changed_tasks E system_design_files (name # names) docs st =
     (if name \<in> fst ` set docs then update_changed_tasks E system_design_files names docs st
      else
        (case update_tasks E system_design_files name st of
           (Inl e, st') \<Rightarrow> (Inl e, st')
         | (Inr task_doc, st') \<Rightarrow>
             update_changed_tasks E system_design_files names (AList.update name task_doc docs) st'))"

text \<open>
  \<open>WriteTasks.run\<close>: the two lists of changed files are what the two repositories report;
  the result is the dictionary \<open>change_files.docs\<close>.
\<close>

definition run ::
  "env \<Rightarrow> files \<Rightarrow> string list \<Rightarrow> string list \<Rightarrow> state \<Rightarrow> (exn + Document dict) \<times> state" where
  "run E system_design_files changed_system_designs changed_tasks st =
     (case update_changed_designs E system_design_files changed_system_designs [] st of
        (Inl e, st') \<Rightarrow> (Inl e, st')
      | (Inr docs, st') \<Rightarrow> update_changed_tasks E system_design_files changed_tasks docs st')"

section \<open>Notions of the specification\<close>

text \<open>
  The delimiters of the two shapes \<open>extract_struct\<close> is asked for, the empty container it
  returns, and the test that a value has the shape asked for.
\<close>

fun open_delimiter :: "data_type \<Rightarrow> char" where
  "open_delimiter py_list = CHR ''[''"
| "open_delimiter t = CHR ''{''"

fun close_delimiter :: "data_type \<Rightarrow> char" where
  "close_delimiter py_list = CHR '']''"
| "close_delimiter t = CHR ''}''"

fun empty_container :: "data_type \<Rightarrow> pyval" where
  "empty_container py_list = PList []"
| "empty_container t = PDict []"

fun has_shape :: "data_type \<Rightarrow> pyval \<Rightarrow> bool" where
  "has_shape py_list (PList xs) = True"
| "has_shape py_dict (PDict kvs) = True"
| "has_shape t v = False"

text \<open>
  The span of the specification: the text from the first opening delimiter to the last
  closing delimiter, which is empty when that closing delimiter comes first.
\<close>

definition span :: "char \<Rightarrow> char \<Rightarrow> string \<Rightarrow> string" where
  "span opn cls s = rev (dropWhile (\<lambda>c. c \<noteq> cls) (rev (dropWhile (\<lambda>c. c \<noteq> opn) s)))"

text \<open>
  What the source relies on from the literal parser of Python: the empty text is no
  literal, a text that begins with a square bracket never evaluates to a dictionary, and
  a text that begins with a brace never evaluates to a list.
\<close>

definition literal_eval_brackets :: "literal_eval \<Rightarrow> bool" where
  "literal_eval_brackets le \<longleftrightarrow>
     (\<forall>s v. le s = Inr v \<longrightarrow>
        s \<noteq> []
        \<and> (hd s = CHR ''['' \<longrightarrow> (\<forall>kvs. v \<noteq> PDict kvs))
        \<and> (hd s = CHR ''{'' \<longrightarrow> (\<forall>xs. v \<noteq> PList xs)))"

text \<open>
  The processing queue of the specification: the changed system designs, then the
  changed task files that are not in the queue already.
\<close>

fun unseen :: "string set \<Rightarrow> string list \<Rightarrow> string list" where
  "unseen seen [] = []"
| "unseen seen (name # names) =
     (if name \<in> seen then unseen seen names else name # unseen (insert name seen) names)"

definition processing_queue :: "string list \<Rightarrow> string list \<Rightarrow> string list" where
  "processing_queue changed_system_designs changed_tasks =
     changed_system_designs @ unseen (set changed_system_designs) changed_tasks"

text \<open>
  A schema entry declares a list when it is, or its first component is, one of the three
  list annotations.
\<close>

fun declares_list :: "typing_define option \<Rightarrow> bool" where
  "declares_list (Some (Annotation a)) = (a \<in> {List_str, List_Tuple_str_str, List_List_str})"
| "declares_list (Some (Tuple (a # rest))) = (a \<in> {List_str, List_Tuple_str_str, List_List_str})"
| "declares_list entry = False"

text \<open>
  The fenced region of the specification, for the literal text a fence opens with: the
  text after the first such opening, from the end of the first run of white space in it
  up to the next fence; none when there is no opening, no white space after it, or no
  fence after that white space.
\<close>

fun after_first :: "string \<Rightarrow> string \<Rightarrow> string option" where
  "after_first m [] = (if m = [] then Some [] else None)"
| "after_first m (c # cs) =
     (if prefix m (c # cs) then Some (drop (length m) (c # cs)) else after_first m cs)"

fun before_first :: "string \<Rightarrow> string \<Rightarrow> string option" where
  "before_first m [] = (if m = [] then Some [] else None)"
| "before_first m (c # cs) =
     (if prefix m (c # cs) then Some [] else map_option ((#) c) (before_first m cs))"

definition fenced_code :: "string \<Rightarrow> string \<Rightarrow> string option" where
  "fenced_code start s =
     (case after_first start s of
        None \<Rightarrow> None
      | Some rest \<Rightarrow>
          let from_space = dropWhile (\<lambda>c. \<not> is_space c) rest
          in if from_space = [] then None
             else before_first ''```'' (dropWhile is_space from_space))"

text \<open>
  The merge context of the specification: the existing derived content under the heading
  Legacy Content, followed by the new upstream content under the heading New
  Requirements.
\<close>

definition merge_context :: "string \<Rightarrow> string \<Rightarrow> string" where
  "merge_context existing upstream =
     [CHR 0x0A] @ ''### Legacy Content'' @ [CHR 0x0A] @ existing @ [CHR 0x0A, CHR 0x0A]
       @ ''### New Requirements'' @ [CHR 0x0A] @ upstream @ [CHR 0x0A]"

text \<open>
  The call of the specification for one file name whose upstream document has the content
  \<open>upstream\<close>, given the derived documents at that moment: a fresh generation from the
  upstream content when no derived document of that name exists, and a merge on the
  merge context when one exists. \<open>call_context\<close> is the context that call passes on.
\<close>

definition call_context :: "files \<Rightarrow> string \<Rightarrow> string \<Rightarrow> string" where
  "call_context derived name upstream =
     (case derived name of
        None \<Rightarrow> upstream
      | Some existing \<Rightarrow> merge_context existing upstream)"

definition expected_call :: "files \<Rightarrow> string \<Rightarrow> string \<Rightarrow> call" where
  "expected_call derived name upstream =
     (case derived name of
        None \<Rightarrow> Run_new_tasks upstream
      | Some existing \<Rightarrow> Merge (merge_context existing upstream))"

text \<open>
  The calls of the specification for a list of file names, given the upstream documents,
  the derived documents when the first name is reached, and the number of calls made
  before. A name without upstream document stops the run with no call. Otherwise the
  call for that name is made, and the run goes on to the next name, with the produced
  document among the derived ones, when the call and the reading of the package list
  raise nothing.
\<close>

fun expected_calls :: "env \<Rightarrow> files \<Rightarrow> files \<Rightarrow> nat \<Rightarrow> string list \<Rightarrow> call list" where
  "expected_calls E upstreams derived k [] = []"
| "expected_calls E upstreams derived k (name # names) =
     (case upstreams name of
        None \<Rightarrow> []
      | Some upstream \<Rightarrow>
          expected_call derived name upstream #
          (case fill E k (call_context derived name upstream) of
             Inl e \<Rightarrow> []
           | Inr produced \<Rightarrow>
               (case required_packages E produced of
                  Inl e \<Rightarrow> []
                | Inr packages \<Rightarrow>
                    expected_calls E upstreams (derived(name \<mapsto> produced)) (Suc k) names)))"

section \<open>Example inputs\<close>

text \<open>
  A small project for the concrete instances below: the language model answers every
  context with an empty JSON object, no packages are required, and a set is iterated in
  the order of insertion.
\<close>

definition example_env :: env where
  "example_env =
     \<lparr>SYSTEM_DESIGN_FILE_REPO = ''docs/system_design'',
      TASK_FILE_REPO = ''docs/tasks'',
      PACKAGE_REQUIREMENTS_FILENAME = ''requirements.txt'',
      TASK_PDF_FILE_REPO = ''resources/api_spec_and_tasks'',
      path_with_suffix = (\<lambda>name suffix. rev (tl (dropWhile (\<lambda>c. c \<noteq> CHR ''.'') (rev name))) @ suffix),
      fill = (\<lambda>n context. Inr ''{}''),
      required_packages = (\<lambda>json. Inr []),
      set_order = remdups\<rparr>"

definition example_state :: state where
  "example_state =
     \<lparr>tasks_files = [''b.md'' \<mapsto> ''old B''],
      tasks_dependencies = Map.empty,
      root_files = Map.empty,
      exported_files = Map.empty,
      calls = []\<rparr>"

section \<open>Properties of the block segmentation\<close>

lemma split_without_marker: "\<not> contains ''##'' s \<Longrightarrow> split_str ''##'' s = [s]"
  by (induction s) (auto split: list.splits)

lemma dropWhile_absent: "x \<notin> set xs \<Longrightarrow> dropWhile (\<lambda>c. c \<noteq> x) xs = []"
  by (induction xs) auto

lemma takeWhile_absent: "x \<notin> set xs \<Longrightarrow> takeWhile (\<lambda>c. c \<noteq> x) xs = xs"
  by (induction xs) auto

lemma CodeParser_without_marker:
  "\<not> contains ''##'' s \<Longrightarrow>
   CodeParser_parse_blocks s =
     (if strip s = [] then []
      else [(strip (takeWhile (\<lambda>c. c \<noteq> nl) s), strip (tl (dropWhile (\<lambda>c. c \<noteq> nl) s)))])"
  by (auto simp: split_without_marker CodeParser_parse_blocks_def
      CodeParser_parse_blocks_step_def split_nl_1_def takeWhile_absent dropWhile_absent)

lemma OutputParser_without_marker_blank:
  "\<not> contains ''##'' s \<Longrightarrow> strip s = [] \<Longrightarrow> OutputParser_parse_blocks s = Inr []"
  by (simp add: split_without_marker OutputParser_parse_blocks_def
      OutputParser_parse_blocks_step_def)

lemma OutputParser_without_marker_not_empty:
  "\<not> contains ''##'' s \<Longrightarrow> strip s \<noteq> [] \<Longrightarrow> OutputParser_parse_blocks s \<noteq> Inr []"
  by (auto simp: split_without_marker OutputParser_parse_blocks_def
      OutputParser_parse_blocks_step_def Let_def split: list.splits if_splits)

lemma OutputParser_without_marker_block:
  "\<not> contains ''##'' s \<Longrightarrow> strip s \<noteq> [] \<Longrightarrow> nl \<in> set s \<Longrightarrow> hd s \<noteq> nl \<Longrightarrow>
   OutputParser_parse_blocks s =
     Inr [(strip (let t = takeWhile (\<lambda>c. c \<noteq> nl) s
                  in if last t = CHR '':'' then butlast t else t),
           strip (tl (dropWhile (\<lambda>c. c \<noteq> nl) s)))]"
  by (cases s) (auto simp: split_without_marker OutputParser_parse_blocks_def
      OutputParser_parse_blocks_step_def split_nl_1_def Let_def)

text \<open>
  C3, as amended. A text without the marker \<open>##\<close> is one segment. Each of the two
  segmenters returns the empty mapping exactly when the text is blank. Otherwise
  \<open>CodeParser.parse_blocks\<close> returns one block, whose title is the stripped first line
  and whose body is the stripped rest; \<open>OutputParser.parse_blocks\<close> returns the same
  block, with one colon at the end of the first line removed, when the text has a line
  feed that is not its first character.
\<close>

theorem parse_blocks_without_marker:
  assumes "\<not> contains ''##'' s"
  shows "CodeParser_parse_blocks s =
           (if strip s = [] then []
            else [(strip (takeWhile (\<lambda>c. c \<noteq> nl) s),
                   strip (tl (dropWhile (\<lambda>c. c \<noteq> nl) s)))])
         \<and> (OutputParser_parse_blocks s = Inr [] \<longleftrightarrow> strip s = [])
         \<and> (strip s \<noteq> [] \<and> nl \<in> set s \<and> hd s \<noteq> nl \<longrightarrow>
              OutputParser_parse_blocks s =
                Inr [(strip (let t = takeWhile (\<lambda>c. c \<noteq> nl) s
                             in if last t = CHR '':'' then butlast t else t),
                      strip (tl (dropWhile (\<lambda>c. c \<noteq> nl) s)))])"
  using assms CodeParser_without_marker OutputParser_without_marker_blank
    OutputParser_without_marker_not_empty OutputParser_without_marker_block by blast

theorem parse_blocks_without_marker_witness:
  "\<not> contains ''##'' (''Plan:'' @ [nl] @ ''ship it'')
   \<and> CodeParser_parse_blocks (''Plan:'' @ [nl] @ ''ship it'') = [(''Plan:'', ''ship it'')]
   \<and> OutputParser_parse_blocks (''Plan:'' @ [nl] @ ''ship it'') = Inr [(''Plan'', ''ship it'')]
   \<and> OutputParser_parse_blocks (''Plan:'' @ [nl] @ ''ship it'') \<noteq> Inr []"
  using parse_blocks_without_marker [of "''Plan:'' @ [nl] @ ''ship it''"]
  by (simp add: strip_def is_space_def nl_def)

theorem parse_blocks_without_marker_counterexample:
  "\<not> contains ''##'' ''hello''
   \<and> CodeParser_parse_blocks ''hello'' = [(''hello'', [])]
   \<and> \<not> contains ''##'' (''hello'' @ [nl] @ ''world'')
   \<and> OutputParser_parse_blocks (''hello'' @ [nl] @ ''world'') = Inr [(''hello'', ''world'')]"
  by (simp add: CodeParser_parse_blocks_def CodeParser_parse_blocks_step_def split_nl_1_def
      strip_def is_space_def nl_def OutputParser_parse_blocks_def
      OutputParser_parse_blocks_step_def)

text \<open>
  C9. \<open>OutputParser.parse_blocks\<close> raises on a segment without a line feed: for the text
  \<open>## Title\<close> the unpacking of the split raises ValueError, where
  \<open>CodeParser.parse_blocks\<close> returns the title with an empty body.
\<close>

theorem OutputParser_parse_blocks_raises:
  "OutputParser_parse_blocks ''## Title''
     = Inl (ValueError ''not enough values to unpack (expected 2, got 1)'')
   \<and> CodeParser_parse_blocks ''## Title'' = [(''Title'', [])]"
  by (simp add: CodeParser_parse_blocks_def CodeParser_parse_blocks_step_def split_nl_1_def
      strip_def is_space_def nl_def OutputParser_parse_blocks_def
      OutputParser_parse_blocks_step_def)

section \<open>Properties of the fence extraction\<close>

lemma fence_not_Nil: "fence \<noteq> []"
  by (simp add: fence_def)

lemma re_code_group_before: "re_code_group s = before_first fence s"
  by (induction s) (simp_all add: fence_not_Nil)

lemma fence_not_space: "is_space c \<Longrightarrow> \<not> prefix fence (c # cs)"
  by (auto simp: fence_def is_space_def)

lemma before_first_space:
  "is_space c \<Longrightarrow> before_first fence (c # cs) = map_option ((#) c) (before_first fence cs)"
  by (simp add: fence_not_space)

lemma before_first_spaces:
  "before_first fence (dropWhile is_space s) = None \<longleftrightarrow> before_first fence s = None"
  by (induction s) (simp_all add: before_first_space del: before_first.simps(2))

lemma before_first_None_tl: "before_first m (x # xs) = None \<Longrightarrow> before_first m xs = None"
  by (auto split: if_splits)

lemma before_first_None_dropWhile:
  "before_first m xs = None \<Longrightarrow> before_first m (dropWhile P xs) = None"
  by (induction xs) (auto dest: before_first_None_tl simp del: before_first.simps(2))

lemma re_code_spaces_eq:
  "re_code_spaces s =
     (case s of
        [] \<Rightarrow> None
      | c # cs \<Rightarrow> if is_space c then before_first fence (dropWhile is_space s) else None)"
proof (induction s)
  case Nil
  then show ?case by simp
next
  case (Cons c cs)
  show ?case
  proof (cases "is_space c")
    case False
    then show ?thesis by simp
  next
    case True
    have "(case re_code_spaces cs of Some code \<Rightarrow> Some code | None \<Rightarrow> re_code_group cs)
            = before_first fence (dropWhile is_space cs)"
    proof (cases cs)
      case Nil
      then show ?thesis by (simp add: fence_not_Nil)
    next
      case (Cons d ds)
      show ?thesis
      proof (cases "is_space d")
        case sp: True
        with Cons Cons.IH have eq: "re_code_spaces cs = before_first fence (dropWhile is_space cs)"
          by (simp del: before_first.simps(2))
        show ?thesis
        proof (cases "before_first fence (dropWhile is_space cs)")
          case None
          then have "before_first fence cs = None" using before_first_spaces by simp
          with None eq show ?thesis by (simp add: re_code_group_before)
        next
          case (Some code)
          with eq show ?thesis by simp
        qed
      next
        case nsp: False
        with Cons Cons.IH have "re_code_spaces cs = None" by simp
        moreover from nsp Cons have "dropWhile is_space cs = cs" by simp
        ultimately show ?thesis by (simp add: re_code_group_before)
      qed
    qed
    with True show ?thesis by simp
  qed
qed

lemma re_code_skip_eq:
  "re_code_skip s =
     (let from_space = dropWhile (\<lambda>c. \<not> is_space c) s
      in if from_space = [] then None
         else before_first fence (dropWhile is_space from_space))"
proof (induction s)
  case Nil
  then show ?case by simp
next
  case (Cons c cs)
  show ?case
  proof (cases "is_space c")
    case False
    with Cons.IH show ?thesis by (simp add: re_code_spaces_eq)
  next
    case True
    then have sp: "re_code_spaces (c # cs) = before_first fence (dropWhile is_space cs)"
      by (simp add: re_code_spaces_eq)
    show ?thesis
    proof (cases "before_first fence (dropWhile is_space cs)")
      case (Some code)
      with sp True show ?thesis by simp
    next
      case None
      then have "before_first fence cs = None" using before_first_spaces by simp
      then have "before_first fence
                   (dropWhile is_space (dropWhile (\<lambda>c. \<not> is_space c) cs)) = None"
        by (intro before_first_None_dropWhile)
      with Cons.IH have "re_code_skip cs = None" by (simp add: Let_def)
      with sp None True show ?thesis by simp
    qed
  qed
qed

lemma re_code_skip_None_append: "re_code_skip (xs @ ys) = None \<Longrightarrow> re_code_skip ys = None"
  by (induction xs) (auto split: option.splits)

lemma after_first_parts:
  "after_first m s = Some r \<Longrightarrow> \<exists>p. s = p @ r \<and> length m \<le> length p"
proof (induction s)
  case Nil
  then show ?case by (auto split: if_splits)
next
  case (Cons c cs)
  show ?case
  proof (cases "prefix m (c # cs)")
    case True
    with Cons.prems have r: "r = drop (length m) (c # cs)" by simp
    from True have "c # cs = m @ r" unfolding r by (metis append_eq_conv_conj prefix_def)
    then show ?thesis by blast
  next
    case False
    with Cons.prems have "after_first m cs = Some r" by simp
    from Cons.IH [OF this] obtain p where "cs = p @ r" "length m \<le> length p" by blast
    then have "c # cs = (c # p) @ r \<and> length m \<le> length (c # p)" by simp
    then show ?thesis by blast
  qed
qed

lemma re_code_search_after:
  assumes "start \<noteq> []"
  shows "re_code_search start s =
           (case after_first start s of None \<Rightarrow> None | Some rest \<Rightarrow> re_code_skip rest)"
proof (induction s)
  case Nil
  with assms show ?case by (simp add: re_code_match_def)
next
  case (Cons c cs)
  show ?case
  proof (cases "prefix start (c # cs)")
    case False
    with Cons.IH show ?thesis by (simp add: re_code_match_def)
  next
    case True
    show ?thesis
    proof (cases "re_code_skip (drop (length start) (c # cs))")
      case (Some code)
      with True show ?thesis by (simp add: re_code_match_def)
    next
      case None
      have "re_code_search start cs = None"
      proof (cases "after_first start cs")
        case n: None
        with Cons.IH show ?thesis by simp
      next
        case (Some r)
        from after_first_parts [OF Some] obtain p where p: "cs = p @ r" "length start \<le> length p"
          by blast
        from p(2) have "drop (length start) ((c # p) @ r) = drop (length start) (c # p) @ r"
          by (simp only: drop_append) simp
        with p(1) have "drop (length start) (c # cs) = drop (length start) (c # p) @ r"
          by simp
        with None have "re_code_skip r = None"
          using re_code_skip_None_append by metis
        with Cons.IH Some show ?thesis by simp
      qed
      with None True show ?thesis by (simp add: re_code_match_def)
    qed
  qed
qed

lemma re_code_search_fenced:
  "start \<noteq> [] \<Longrightarrow> re_code_search start s = fenced_code start s"
  by (simp add: re_code_search_after fenced_code_def re_code_skip_eq fence_def [symmetric]
      split: option.splits)

lemma plain_tag_Nil: "plain_tag []"
  by (simp add: plain_tag_def)

lemma OutputParser_parse_code_fenced:
  "OutputParser_parse_code s [] =
     Some (case fenced_code ''```'' s of Some code \<Rightarrow> Inr code | None \<Rightarrow> Inl (Exception []))"
  using re_code_search_fenced [of fence s]
  by (simp add: OutputParser_parse_code_def code_pattern_start_def plain_tag_Nil fence_def)

lemma re_code_match_Nil: "start \<noteq> [] \<Longrightarrow> re_code_match start [] = None"
  by (simp add: re_code_match_def)

lemma parse_block_loop_no_title:
  "\<forall>(k, v) \<in> set bs. \<not> contains block k \<Longrightarrow> CodeParser_parse_block_loop block bs = []"
  by (induction bs) auto

text \<open>
  C5, as amended. Let no character of the language tag be special in a pattern. When a
  block title is given and no title of the segmented text contains it,
  \<open>CodeParser.parse_code\<close> searches the empty string that \<open>parse_block\<close> returns, and
  returns the empty string, whatever fences the text has.
\<close>

theorem parse_code_unknown_block:
  assumes "plain_tag lang" and "block \<noteq> []"
    and "\<forall>(k, v) \<in> set (CodeParser_parse_blocks s). \<not> contains block k"
  shows "CodeParser_parse_code block s lang = Some []"
  using assms
  by (simp add: CodeParser_parse_code_def CodeParser_parse_block_def code_pattern_start_def
      parse_block_loop_no_title re_code_match_Nil fence_def)

theorem parse_code_unknown_block_witness:
  "CodeParser_parse_blocks (''## Design'' @ [nl] @ ''```x```'') = [(''Design'', ''```x```'')]
   \<and> \<not> contains ''Tasks'' ''Design''
   \<and> CodeParser_parse_code ''Tasks'' (''## Design'' @ [nl] @ ''```x```'') ''python'' = Some []"
proof -
  have blocks: "CodeParser_parse_blocks (''## Design'' @ [nl] @ ''```x```'')
                  = [(''Design'', ''```x```'')]"
    by (simp add: CodeParser_parse_blocks_def CodeParser_parse_blocks_step_def split_nl_1_def
        strip_def is_space_def nl_def)
  have no_title: "\<forall>(k, v) \<in> set (CodeParser_parse_blocks (''## Design'' @ [nl] @ ''```x```'')).
                    \<not> contains ''Tasks'' k"
    unfolding blocks by simp
  have plain: "plain_tag ''python''" by (simp add: plain_tag_def)
  show ?thesis
    using blocks no_title
      parse_code_unknown_block [OF plain, of "''Tasks''" "''## Design'' @ [nl] @ ''```x```''"]
    by simp
qed

theorem parse_code_unknown_block_counterexample:
  "CodeParser_parse_blocks (''```python'' @ [nl] @ ''print(1)'' @ [nl] @ ''```'')
     = [(''```python'', ''print(1)'' @ [nl] @ ''```'')]
   \<and> \<not> contains ''Title'' ''```python''
   \<and> CodeParser_parse_code ''Title'' (''```python'' @ [nl] @ ''print(1)'' @ [nl] @ ''```'')
        ''python'' = Some []
   \<and> CodeParser_parse_code [] (''```python'' @ [nl] @ ''print(1)'' @ [nl] @ ''```'')
        ''python'' = Some (''print(1)'' @ [nl])"
  by code_simp

section \<open>Properties of the tagged content\<close>

lemma prefix_within:
  "prefix m (xs @ ys) \<Longrightarrow> length m \<le> length xs \<Longrightarrow> prefix m xs"
  by (metis prefix_length_prefix prefixI)

lemma not_prefix_early:
  assumes "m \<noteq> []" and "\<not> prefix m (x # xs @ butlast m)"
  shows "\<not> prefix m (x # xs @ m @ rest)"
proof
  assume p: "prefix m (x # xs @ m @ rest)"
  have "x # xs @ m @ rest = (x # xs @ butlast m) @ (last m # rest)"
    using assms(1) by simp
  with p have "prefix m ((x # xs @ butlast m) @ (last m # rest))" by simp
  moreover have "length m \<le> length (x # xs @ butlast m)" using assms(1) by simp
  ultimately have "prefix m (x # xs @ butlast m)" by (rule prefix_within)
  with assms(2) show False by simp
qed

lemma contains_short: "length xs < length m \<Longrightarrow> \<not> contains m xs"
  by (induction xs) (auto dest: prefix_length_le)

lemma re_tag_group_first:
  "m \<noteq> [] \<Longrightarrow> \<not> contains m (mid @ butlast m) \<Longrightarrow> re_tag_group m (mid @ m @ post) = Some mid"
proof (induction mid)
  case Nil
  then show ?case by (cases m) auto
next
  case (Cons x mid)
  from Cons.prems have "\<not> prefix m (x # mid @ butlast m)" "\<not> contains m (mid @ butlast m)"
    by auto
  with Cons.prems(1) Cons.IH not_prefix_early [of m x mid post] show ?case by simp
qed

lemma re_tag_group_sound:
  "re_tag_group cls s = Some g \<Longrightarrow> cls \<noteq> [] \<Longrightarrow>
   \<exists>post. s = g @ cls @ post \<and> \<not> contains cls (g @ butlast cls)"
proof (induction s arbitrary: g)
  case Nil
  then show ?case by simp
next
  case (Cons c cs)
  show ?case
  proof (cases "prefix cls (c # cs)")
    case True
    with Cons.prems have "g = []" by simp
    moreover from True obtain post where "c # cs = cls @ post" by (auto simp: prefix_def)
    moreover have "\<not> contains cls (butlast cls)"
      using Cons.prems(2) by (intro contains_short) simp
    ultimately show ?thesis by simp
  next
    case False
    with Cons.prems obtain g' where g': "g = c # g'" "re_tag_group cls cs = Some g'"
      by auto
    from Cons.IH [OF g'(2) Cons.prems(2)] obtain post where
      post: "cs = g' @ cls @ post" and first: "\<not> contains cls (g' @ butlast cls)"
      by blast
    have "\<not> prefix cls (c # g' @ butlast cls)"
    proof
      assume "prefix cls (c # g' @ butlast cls)"
      then have "prefix cls ((c # g' @ butlast cls) @ (last cls # post))"
        by (rule prefix_prefix)
      moreover have "(c # g' @ butlast cls) @ (last cls # post) = c # cs"
        using post Cons.prems(2) by simp
      ultimately show False using False by simp
    qed
    with first post g'(1) show ?thesis by simp
  qed
qed

lemma re_tag_group_complete: "cls \<noteq> [] \<Longrightarrow> re_tag_group cls (xs @ cls @ ys) \<noteq> None"
proof (induction xs)
  case Nil
  then show ?case by (cases cls) auto
next
  case (Cons x xs)
  then show ?case by simp
qed

lemma re_tag_search_first:
  assumes opn_ne: "opn \<noteq> []" and cls_ne: "cls \<noteq> []"
    and "\<not> contains opn (pre @ butlast opn)"
    and "\<not> contains cls (mid @ butlast cls)"
  shows "re_tag_search opn cls (pre @ opn @ mid @ cls @ post) = Some mid"
  using assms(3)
proof (induction pre)
  case Nil
  have grp: "re_tag_group cls (mid @ cls @ post) = Some mid"
    using cls_ne assms(4) by (rule re_tag_group_first)
  from opn_ne obtain c cs where "opn @ mid @ cls @ post = c # cs" by (cases opn) auto
  moreover have "re_tag_match opn cls (opn @ mid @ cls @ post) = Some mid"
    using grp by (simp add: re_tag_match_def)
  ultimately show ?case by (metis append_Nil option.simps(5) re_tag_search.simps(2))
next
  case (Cons x pre)
  from Cons.prems have np: "\<not> prefix opn (x # pre @ butlast opn)"
    and nc: "\<not> contains opn (pre @ butlast opn)"
    by auto
  have "\<not> prefix opn (x # pre @ opn @ (mid @ cls @ post))"
    using opn_ne np by (rule not_prefix_early)
  then have "re_tag_match opn cls (x # pre @ opn @ mid @ cls @ post) = None"
    by (simp add: re_tag_match_def)
  with Cons.IH [OF nc] show ?case by simp
qed

lemma re_tag_search_sound:
  assumes opn_ne: "opn \<noteq> []" and cls_ne: "cls \<noteq> []"
  shows "re_tag_search opn cls s = Some g \<Longrightarrow>
         \<exists>pre post. s = pre @ opn @ g @ cls @ post \<and> \<not> contains opn (pre @ butlast opn)
           \<and> \<not> contains cls (g @ butlast cls)"
proof (induction s)
  case Nil
  then show ?case using opn_ne by (simp add: re_tag_match_def)
next
  case (Cons c cs)
  show ?case
  proof (cases "re_tag_match opn cls (c # cs)")
    case (Some g0)
    with Cons.prems have g0: "g0 = g" by simp
    from Some have p: "prefix opn (c # cs)" and
      grp: "re_tag_group cls (drop (length opn) (c # cs)) = Some g"
      unfolding g0 by (auto simp: re_tag_match_def split: if_splits)
    from re_tag_group_sound [OF grp cls_ne] obtain post where
      post: "drop (length opn) (c # cs) = g @ cls @ post" and
      first: "\<not> contains cls (g @ butlast cls)" by blast
    from p have "c # cs = opn @ drop (length opn) (c # cs)"
      by (metis append_eq_conv_conj prefix_def)
    with post have "c # cs = [] @ opn @ g @ cls @ post" by simp
    moreover have "\<not> contains opn ([] @ butlast opn)"
      using opn_ne by (intro contains_short) simp
    ultimately show ?thesis using first by blast
  next
    case None
    with Cons.prems have "re_tag_search opn cls cs = Some g" by simp
    from Cons.IH [OF this] obtain pre post where
      cs: "cs = pre @ opn @ g @ cls @ post" and
      fo: "\<not> contains opn (pre @ butlast opn)" and
      fc: "\<not> contains cls (g @ butlast cls)" by blast
    have "\<not> prefix opn (c # pre @ butlast opn)"
    proof
      assume "prefix opn (c # pre @ butlast opn)"
      then have "prefix opn ((c # pre @ butlast opn) @ (last opn # g @ cls @ post))"
        by (rule prefix_prefix)
      moreover have "(c # pre @ butlast opn) @ (last opn # g @ cls @ post) = c # cs"
        using cs opn_ne by simp
      ultimately have p: "prefix opn (c # cs)" by simp
      have "length opn \<le> length (c # pre @ opn @ g)" by simp
      then have "drop (length opn) ((c # pre @ opn @ g) @ (cls @ post))
                   = drop (length opn) (c # pre @ opn @ g) @ (cls @ post)"
        by (simp only: drop_append diff_is_0_eq' drop_0)
      then have "drop (length opn) (c # cs) = drop (length opn) (c # pre @ opn @ g) @ cls @ post"
        using cs by simp
      with re_tag_group_complete [OF cls_ne, of "drop (length opn) (c # pre @ opn @ g)" post]
      have "re_tag_group cls (drop (length opn) (c # cs)) \<noteq> None" by simp
      with p None show False by (simp add: re_tag_match_def)
    qed
    with fo have "\<not> contains opn ((c # pre) @ butlast opn)" by simp
    with cs fc have "c # cs = (c # pre) @ opn @ g @ cls @ post
        \<and> \<not> contains opn ((c # pre) @ butlast opn) \<and> \<not> contains cls (g @ butlast cls)"
      by simp
    then show ?thesis by blast
  qed
qed

lemma extract_content_default:
  "extract_content s ''CONTENT'' =
     Some (case re_tag_search ''[CONTENT]'' ''[/CONTENT]'' s of
             Some g \<Rightarrow> strip g
           | None \<Rightarrow> ''No content found between [CONTENT] and [/CONTENT] tags.'')"
  by (simp add: extract_content_def tag_pattern_def plain_tag_def)

lemma extract_content_span:
  assumes "\<not> contains ''[CONTENT]'' (pre @ ''[CONTENT'')"
    and "\<not> contains ''[/CONTENT]'' (mid @ ''[/CONTENT'')"
  shows "extract_content (pre @ ''[CONTENT]'' @ mid @ ''[/CONTENT]'' @ post) ''CONTENT''
           = Some (strip mid)"
proof -
  have "re_tag_search ''[CONTENT]'' ''[/CONTENT]''
          (pre @ ''[CONTENT]'' @ mid @ ''[/CONTENT]'' @ post) = Some mid"
    by (rule re_tag_search_first) (use assms in simp_all)
  then show ?thesis by (simp add: extract_content_default)
qed

section \<open>Properties of the typed fields\<close>

lemma update_fresh: "k \<notin> fst ` set al \<Longrightarrow> AList.update k v al = al @ [(k, v)]"
  by (induction al) auto

lemma OutputParser_step_distinct:
  "OutputParser_parse_blocks_step block acc = Inr acc' \<Longrightarrow> distinct (map fst acc) \<Longrightarrow> distinct (map fst acc')"
  by (auto simp: OutputParser_parse_blocks_step_def Let_def distinct_update split: if_splits list.splits)

lemma OutputParser_loop_distinct:
  "OutputParser_parse_blocks_loop blocks acc = Inr bd \<Longrightarrow> distinct (map fst acc) \<Longrightarrow> distinct (map fst bd)"
  by (induction blocks arbitrary: acc) (auto split: sum.splits dest: OutputParser_step_distinct)

lemma OutputParser_parse_blocks_distinct:
  "OutputParser_parse_blocks s = Inr bd \<Longrightarrow> distinct (map fst bd)"
  unfolding OutputParser_parse_blocks_def by (drule OutputParser_loop_distinct) auto

lemma mapping_loop_shape:
  "parse_data_with_mapping_loop le m items acc = Inr res \<Longrightarrow>
   distinct (map fst items) \<Longrightarrow> fst ` set items \<inter> fst ` set acc = {} \<Longrightarrow>
   \<exists>new. res = acc @ new \<and>
     list_all2 (\<lambda>kb kv. fst kv = fst kb \<and> parse_data_with_mapping_content le m (fst kb) (snd kb) = Inr (snd kv)) items new"
proof (induction items arbitrary: acc)
  case Nil
  then show ?case by simp
next
  case (Cons item items)
  obtain k b where item: "item = (k, b)" by (cases item)
  from Cons.prems(1) item obtain v where
    v: "parse_data_with_mapping_content le m k b = Inr v" and
    rest: "parse_data_with_mapping_loop le m items (AList.update k v acc) = Inr res"
    by (auto simp: parse_data_with_mapping_step_def split: sum.splits)
  from Cons.prems(3) item have fresh: "k \<notin> fst ` set acc" by auto
  then have upd: "AList.update k v acc = acc @ [(k, v)]" by (rule update_fresh)
  from Cons.prems(2,3) item have "fst ` set items \<inter> fst ` set (acc @ [(k, v)]) = {}"
    by auto
  with Cons.IH [of "acc @ [(k, v)]"] rest upd Cons.prems(2) obtain new where
    new: "res = (acc @ [(k, v)]) @ new"
      "list_all2 (\<lambda>kb kv. fst kv = fst kb \<and> parse_data_with_mapping_content le m (fst kb) (snd kb) = Inr (snd kv)) items new"
    by auto
  show ?case
    by (rule exI [of _ "(k, v) # new"]) (use new v item in simp)
qed

lemma all2_keys:
  "list_all2 (\<lambda>kb kv. fst kv = fst kb \<and> P kb kv) bd res \<Longrightarrow> map fst res = map fst bd"
  by (induction bd res rule: list_all2_induct) auto

lemma all2_lookup:
  "list_all2 (\<lambda>kb kv. fst kv = fst kb \<and> P (fst kb) (snd kb) (snd kv)) bd res \<Longrightarrow> distinct (map fst bd) \<Longrightarrow>
   (k, b) \<in> set bd \<Longrightarrow> \<exists>v. P k b v \<and> map_of res k = Some v"
proof (induction bd res rule: list_all2_induct)
  case Nil
  then show ?case by simp
next
  case (Cons x xs y ys)
  show ?case
  proof (cases "(k, b) = x")
    case True
    with Cons.hyps(1) show ?thesis by (cases y) auto
  next
    case False
    with Cons.prems have in_xs: "(k, b) \<in> set xs" and ne: "fst x \<noteq> k"
      by (auto simp: image_iff)
    with Cons.IH Cons.prems(1) obtain v where "P k b v" "map_of ys k = Some v" by auto
    with ne Cons.hyps(1) show ?thesis by (cases y) auto
  qed
qed

lemma sentinel_raises:
  "OutputParser_parse_blocks ''No content found between [CONTENT] and [/CONTENT] tags.''
     = Inl (ValueError ''not enough values to unpack (expected 2, got 1)'')"
  by code_simp

lemma mapping_shape:
  assumes "parse_data_with_mapping le data m = Some (Inr res)"
  shows "\<exists>inner bd. extract_content data ''CONTENT'' = Some inner
     \<and> OutputParser_parse_blocks inner = Inr bd
     \<and> distinct (map fst bd)
     \<and> list_all2 (\<lambda>kb kv. fst kv = fst kb
           \<and> parse_data_with_mapping_content le m (fst kb) (snd kb) = Inr (snd kv)) bd res"
proof -
  from assms obtain inner bd where
    inner: "extract_content data ''CONTENT'' = Some inner" and
    bd: "OutputParser_parse_blocks inner = Inr bd" and
    loop: "parse_data_with_mapping_loop le m bd [] = Inr res"
    by (auto simp: parse_data_with_mapping_def split: option.splits sum.splits)
  have d: "distinct (map fst bd)" using bd by (rule OutputParser_parse_blocks_distinct)
  from mapping_loop_shape [OF loop d] show ?thesis using inner bd d by auto
qed

lemma re_list_tail_no_bracket: "CHR '']'' \<notin> set s \<Longrightarrow> re_list_tail s = None"
  by (induction s) auto

lemma re_list_group_no_bracket: "CHR ''['' \<notin> set s \<Longrightarrow> re_list_group s = None"
  by (cases s) auto

lemma re_list_after_eq_no_bracket: "CHR ''['' \<notin> set s \<Longrightarrow> re_list_after_eq s = None"
  by (induction s) auto

lemma re_list_before_eq_no_bracket: "CHR ''['' \<notin> set s \<Longrightarrow> re_list_before_eq s = None"
  by (induction s) (auto simp: re_list_after_eq_no_bracket)

lemma re_list_opt_no_bracket: "CHR ''['' \<notin> set s \<Longrightarrow> re_list_opt s = None"
  by (simp add: re_list_opt_def re_list_before_eq_no_bracket re_list_group_no_bracket)

lemma re_list_match_no_bracket: "CHR ''['' \<notin> set s \<Longrightarrow> re_list_match s = None"
  by (induction s) (auto simp: re_list_opt_no_bracket)

lemma re_list_search_no_bracket: "CHR ''['' \<notin> set s \<Longrightarrow> re_list_search s = None"
  by (induction s) (auto simp: re_list_match_no_bracket re_list_opt_no_bracket)

lemma parse_file_list_no_bracket:
  "CHR ''['' \<notin> set s \<Longrightarrow>
   OutputParser_parse_file_list le s = Inr (PList (map PStr (split_str [nl] s)))"
  by (simp add: OutputParser_parse_file_list_def re_list_search_no_bracket)

lemma mapping_content_value:
  assumes "parse_data_with_mapping_content le m title body = Inr v"
  shows "v = (let stripped = (case fenced_code ''```'' body of Some code \<Rightarrow> code | None \<Rightarrow> body)
              in if declares_list (m title)
                 then (case OutputParser_parse_file_list le stripped of
                         Inr tasks \<Rightarrow> tasks
                       | Inl e \<Rightarrow> PStr stripped)
                 else PStr stripped)"
proof (cases "m title")
  case None
  with assms show ?thesis
    by (auto simp: parse_data_with_mapping_content_def OutputParser_parse_code_fenced Let_def
        split: option.splits sum.splits)
next
  case (Some entry)
  show ?thesis
  proof (cases entry)
    case (Annotation a)
    with Some assms show ?thesis
      by (cases a)
         (auto simp: parse_data_with_mapping_content_def OutputParser_parse_code_fenced Let_def
          split: option.splits sum.splits)
  next
    case (Tuple as)
    with Some assms obtain a rest where as: "as = a # rest"
      by (cases as) (auto simp: parse_data_with_mapping_content_def Let_def)
    with Tuple Some assms show ?thesis
      by (cases a)
         (auto simp: parse_data_with_mapping_content_def OutputParser_parse_code_fenced Let_def
          split: option.splits sum.splits)
  qed
qed

text \<open>
  C6, as amended. \<open>parse_data_with_mapping\<close> looks the title of each block up in the
  schema by equality, not by containment, and the keys of its result are the block
  titles. So a declared field that is the title of no block is absent from the result.
  A field that is the title of a block carries the value of that block: its body with
  the code fence removed, or the body itself when it has no fence, read by
  \<open>parse_file_list\<close> when the schema declares a list for that title and that reading
  raises nothing, and kept as a string otherwise. So a field declared as a list whose
  body has no fence and no square bracket carries the list of the lines of the body.
\<close>

theorem mapping_exact_title:
  assumes "parse_data_with_mapping le data m = Some (Inr res)"
    and "extract_content data ''CONTENT'' = Some inner"
    and "OutputParser_parse_blocks inner = Inr bd"
  shows "(field \<notin> fst ` set bd \<longrightarrow> map_of res field = None)
       \<and> (\<forall>body. (field, body) \<in> set bd \<longrightarrow>
             map_of res field =
               Some (let stripped = (case fenced_code ''```'' body of
                                       Some code \<Rightarrow> code
                                     | None \<Rightarrow> body)
                     in if declares_list (m field)
                        then (case OutputParser_parse_file_list le stripped of
                                Inr tasks \<Rightarrow> tasks
                              | Inl e \<Rightarrow> PStr stripped)
                        else PStr stripped))
       \<and> (\<forall>body. (field, body) \<in> set bd \<and> declares_list (m field)
               \<and> fenced_code ''```'' body = None \<and> CHR ''['' \<notin> set body \<longrightarrow>
             map_of res field = Some (PList (map PStr (split_str [nl] body))))"
proof -
  from mapping_shape [OF assms(1)] assms(2,3) have
    d: "distinct (map fst bd)" and
    all2: "list_all2 (\<lambda>kb kv. fst kv = fst kb
             \<and> parse_data_with_mapping_content le m (fst kb) (snd kb) = Inr (snd kv)) bd res"
    by auto
  have keys: "map fst res = map fst bd" using all2 by (rule all2_keys)
  have absent: "map_of res field = None" if "field \<notin> fst ` set bd"
  proof -
    from that keys have "field \<notin> fst ` set res" by (metis set_map)
    then show ?thesis by (simp add: map_of_eq_None_iff)
  qed
  have present: "map_of res field =
               Some (let stripped = (case fenced_code ''```'' body of
                                       Some code \<Rightarrow> code
                                     | None \<Rightarrow> body)
                     in if declares_list (m field)
                        then (case OutputParser_parse_file_list le stripped of
                                Inr tasks \<Rightarrow> tasks
                              | Inl e \<Rightarrow> PStr stripped)
                        else PStr stripped)"
    if "(field, body) \<in> set bd" for body
  proof -
    from all2_lookup [OF all2 d that] obtain v where
      v: "parse_data_with_mapping_content le m field body = Inr v" "map_of res field = Some v"
      by blast
    from mapping_content_value [OF v(1)] v(2) show ?thesis by simp
  qed
  have lines: "map_of res field = Some (PList (map PStr (split_str [nl] body)))"
    if "(field, body) \<in> set bd" "declares_list (m field)"
       "fenced_code ''```'' body = None" "CHR ''['' \<notin> set body" for body
    using present [OF that(1)] that(2,3,4) by (simp add: parse_file_list_no_bracket)
  from absent present lines show ?thesis by blast
qed

theorem mapping_exact_title_witness:
  "parse_data_with_mapping (\<lambda>s. Inl (SyntaxError []))
     (''[CONTENT]## Files'' @ [nl] @ ''```'' @ [nl] @ ''a.py'' @ [nl] @ ''b.py```[/CONTENT]'')
     [''Files'' \<mapsto> Annotation List_str, ''Tasks'' \<mapsto> Annotation List_str]
     = Some (Inr [(''Files'', PList [PStr ''a.py'', PStr ''b.py''])])
   \<and> map_of [(''Files'', PList [PStr ''a.py'', PStr ''b.py''])] ''Tasks'' = None
   \<and> map_of [(''Files'', PList [PStr ''a.py'', PStr ''b.py''])] ''Files''
       = Some (PList (map PStr (split_str [nl] (''a.py'' @ [nl] @ ''b.py''))))"
proof -
  define le where "le = (\<lambda>s::string. (Inl (SyntaxError []) :: exn + pyval))"
  define body where "body = ''```'' @ [nl] @ ''a.py'' @ [nl] @ ''b.py```''"
  define data where "data = ''[CONTENT]## Files'' @ [nl] @ body @ ''[/CONTENT]''"
  define m where
    "m = [''Files'' \<mapsto> Annotation List_str, ''Tasks'' \<mapsto> Annotation List_str]"
  define res where "res = [(''Files'', PList [PStr ''a.py'', PStr ''b.py''])]"
  define code where "code = ''a.py'' @ [nl] @ ''b.py''"
  have r: "parse_data_with_mapping le data m = Some (Inr res)"
    unfolding le_def data_def body_def m_def res_def by code_simp
  have i: "extract_content data ''CONTENT'' = Some (''## Files'' @ [nl] @ body)"
    unfolding data_def body_def by code_simp
  have b: "OutputParser_parse_blocks (''## Files'' @ [nl] @ body) = Inr [(''Files'', body)]"
    unfolding body_def by code_simp
  have f: "fenced_code ''```'' body = Some code"
    unfolding body_def code_def by code_simp
  have l: "OutputParser_parse_file_list le code = Inr (PList (map PStr (split_str [nl] code)))"
    by (rule parse_file_list_no_bracket) (simp add: code_def nl_def)
  have d: "declares_list (m ''Files'')" by (simp add: m_def)
  from mapping_exact_title [OF r i b, of "''Tasks''"]
  have absent: "map_of res ''Tasks'' = None" by simp
  from mapping_exact_title [OF r i b, of "''Files''"]
  have "\<forall>body'. (''Files'', body') \<in> set [(''Files'', body)] \<longrightarrow>
          map_of res ''Files'' =
            Some (let stripped = (case fenced_code ''```'' body' of
                                    Some code \<Rightarrow> code
                                  | None \<Rightarrow> body')
                  in if declares_list (m ''Files'')
                     then (case OutputParser_parse_file_list le stripped of
                             Inr tasks \<Rightarrow> tasks
                           | Inl e \<Rightarrow> PStr stripped)
                     else PStr stripped)"
    by blast
  then have "map_of res ''Files'' =
            Some (let stripped = (case fenced_code ''```'' body of
                                    Some code \<Rightarrow> code
                                  | None \<Rightarrow> body)
                  in if declares_list (m ''Files'')
                     then (case OutputParser_parse_file_list le stripped of
                             Inr tasks \<Rightarrow> tasks
                           | Inl e \<Rightarrow> PStr stripped)
                     else PStr stripped)"
    by simp
  then have present: "map_of res ''Files'' = Some (PList (map PStr (split_str [nl] code)))"
    unfolding f option.case Let_def l using d by simp
  from r absent present show ?thesis
    unfolding le_def data_def body_def m_def res_def code_def by simp
qed

theorem mapping_exact_title_counterexample:
  "contains ''packages'' ''Required packages''
   \<and> parse_data_with_mapping (\<lambda>s. Inl (SyntaxError []))
        (''[CONTENT]## Required packages'' @ [nl] @ ''foo[/CONTENT]'')
        [''packages'' \<mapsto> Annotation List_str]
        = Some (Inr [(''Required packages'', PStr ''foo'')])
   \<and> parse_data_with_mapping (\<lambda>s. Inl (SyntaxError []))
        (''[CONTENT]## Required packages'' @ [nl] @ ''foo[/CONTENT]'')
        [''Required packages'' \<mapsto> Annotation List_str]
        = Some (Inr [(''Required packages'', PList [PStr ''foo''])])"
  by code_simp

text \<open>
  C10. Whenever \<open>parse_data_with_mapping\<close> returns a result, the input has the form
  \<open>pre [CONTENT] inner [/CONTENT] post\<close> with the first opening marker and the first
  closing marker after it, the blocks are those of the stripped \<open>inner\<close>, the keys of
  the result are the titles of all these blocks in their order, and a block whose title
  the schema does not declare carries, as a string, the fenced region of its body, or
  the body itself when it has no fenced region.
\<close>

theorem mapping_keeps_every_block:
  assumes "parse_data_with_mapping le data m = Some (Inr res)"
  shows "\<exists>pre inner post bd.
           data = pre @ ''[CONTENT]'' @ inner @ ''[/CONTENT]'' @ post
           \<and> \<not> contains ''[CONTENT]'' (pre @ ''[CONTENT'')
           \<and> \<not> contains ''[/CONTENT]'' (inner @ ''[/CONTENT'')
           \<and> OutputParser_parse_blocks (strip inner) = Inr bd
           \<and> map fst res = map fst bd
           \<and> (\<forall>(title, body) \<in> set bd. m title = None \<longrightarrow>
                 map_of res title =
                   Some (PStr (case fenced_code ''```'' body of
                                 Some code \<Rightarrow> code
                               | None \<Rightarrow> body)))"
proof -
  from mapping_shape [OF assms] obtain content bd where
    content: "extract_content data ''CONTENT'' = Some content" and
    bd: "OutputParser_parse_blocks content = Inr bd" and
    d: "distinct (map fst bd)" and
    all2: "list_all2 (\<lambda>kb kv. fst kv = fst kb
             \<and> parse_data_with_mapping_content le m (fst kb) (snd kb) = Inr (snd kv)) bd res"
    by blast
  from content bd sentinel_raises obtain inner where
    inner: "re_tag_search ''[CONTENT]'' ''[/CONTENT]'' data = Some inner"
    by (cases "re_tag_search ''[CONTENT]'' ''[/CONTENT]'' data")
       (auto simp: extract_content_default)
  with content have ec: "content = strip inner"
    by (simp add: extract_content_default)
  have "\<exists>pre post. data = pre @ ''[CONTENT]'' @ inner @ ''[/CONTENT]'' @ post
          \<and> \<not> contains ''[CONTENT]'' (pre @ butlast ''[CONTENT]'')
          \<and> \<not> contains ''[/CONTENT]'' (inner @ butlast ''[/CONTENT]'')"
    by (rule re_tag_search_sound [OF _ _ inner]) simp_all
  then obtain pre post where
    parts: "data = pre @ ''[CONTENT]'' @ inner @ ''[/CONTENT]'' @ post"
      "\<not> contains ''[CONTENT]'' (pre @ ''[CONTENT'')"
      "\<not> contains ''[/CONTENT]'' (inner @ ''[/CONTENT'')"
    by auto
  have keys: "map fst res = map fst bd" using all2 by (rule all2_keys)
  have "map_of res title =
          Some (PStr (case fenced_code ''```'' body of Some code \<Rightarrow> code | None \<Rightarrow> body))"
    if "(title, body) \<in> set bd" and "m title = None" for title body
  proof -
    from all2_lookup [OF all2 d that(1)] obtain v where
      v: "parse_data_with_mapping_content le m title body = Inr v" "map_of res title = Some v"
      by blast
    from mapping_content_value [OF v(1)] v(2) that(2) show ?thesis by simp
  qed
  then have undeclared: "\<forall>(title, body) \<in> set bd. m title = None \<longrightarrow>
      map_of res title =
        Some (PStr (case fenced_code ''```'' body of Some code \<Rightarrow> code | None \<Rightarrow> body))"
    by blast
  from bd ec have "OutputParser_parse_blocks (strip inner) = Inr bd" by simp
  with parts keys undeclared show ?thesis by blast
qed

theorem mapping_keeps_every_block_witness:
  "parse_data_with_mapping (\<lambda>s. Inl (SyntaxError []))
     (''see [CONTENT]## Notes'' @ [nl] @ ''```text'' @ [nl] @ ''keep```[/CONTENT]'') Map.empty
     = Some (Inr [(''Notes'', PStr ''keep'')])
   \<and> fenced_code ''```'' (''```text'' @ [nl] @ ''keep```'') = Some ''keep''
   \<and> (\<exists>pre inner post bd.
         ''see [CONTENT]## Notes'' @ [nl] @ ''```text'' @ [nl] @ ''keep```[/CONTENT]''
           = pre @ ''[CONTENT]'' @ inner @ ''[/CONTENT]'' @ post
         \<and> OutputParser_parse_blocks (strip inner) = Inr bd
         \<and> map fst bd = [''Notes''])"
proof -
  let ?data = "''see [CONTENT]## Notes'' @ [nl] @ ''```text'' @ [nl] @ ''keep```[/CONTENT]''"
  have r: "parse_data_with_mapping (\<lambda>s. Inl (SyntaxError [])) ?data Map.empty
             = Some (Inr [(''Notes'', PStr ''keep'')])"
    by code_simp
  have f: "fenced_code ''```'' (''```text'' @ [nl] @ ''keep```'') = Some ''keep''"
    by code_simp
  from mapping_keeps_every_block [OF r] obtain pre inner post bd where
    "?data = pre @ ''[CONTENT]'' @ inner @ ''[/CONTENT]'' @ post"
    "OutputParser_parse_blocks (strip inner) = Inr bd"
    "map fst [(''Notes'', PStr ''keep'')] = map fst bd"
    by blast
  then have "\<exists>pre inner post bd.
         ?data = pre @ ''[CONTENT]'' @ inner @ ''[/CONTENT]'' @ post
         \<and> OutputParser_parse_blocks (strip inner) = Inr bd
         \<and> map fst bd = [''Notes'']"
    by (metis list.simps(8,9) fst_conv)
  with r f show ?thesis by blast
qed

section \<open>Properties of the bracketed structures\<close>

lemma takeWhile_present: "x \<in> set xs \<Longrightarrow> length (takeWhile (\<lambda>c. c \<noteq> x) xs) < length xs"
  by (induction xs) auto

lemma rev_dropWhile_rev:
  "rev (dropWhile P (rev xs)) = take (length xs - length (takeWhile P (rev xs))) xs"
  by (simp add: dropWhile_eq_drop rev_drop)

lemma slice_span:
  assumes c: "c \<in> set s" and d: "d \<in> set s"
  shows "slice s (find s c) (rfind s d + 1) = span c d s"
proof -
  define pre where "pre = takeWhile (\<lambda>x. x \<noteq> c) s"
  define s' where "s' = dropWhile (\<lambda>x. x \<noteq> c) s"
  define k where "k = length (takeWhile (\<lambda>x. x \<noteq> d) (rev s))"
  have s: "s = pre @ s'" by (simp add: pre_def s'_def)
  have k_lt: "k < length s"
    unfolding k_def using d takeWhile_present [of d "rev s"] by simp
  have sl: "slice s (find s c) (rfind s d + 1) = take (length s - k - length pre) s'"
    using c d k_lt by (simp add: slice_def find_def rfind_def pre_def s'_def k_def nat_diff_distrib' dropWhile_eq_drop)
  show ?thesis
  proof (cases "d \<in> set s'")
    case True
    then obtain y where "y \<in> set (rev s')" "\<not> y \<noteq> d" by auto
    then have "takeWhile (\<lambda>x. x \<noteq> d) (rev s' @ rev pre) = takeWhile (\<lambda>x. x \<noteq> d) (rev s')"
      by (rule takeWhile_append1)
    moreover have "rev s = rev s' @ rev pre" by (subst s) simp
    ultimately have "takeWhile (\<lambda>x. x \<noteq> d) (rev s) = takeWhile (\<lambda>x. x \<noteq> d) (rev s')"
      by simp
    then have k': "k = length (takeWhile (\<lambda>x. x \<noteq> d) (rev s'))" by (simp add: k_def)
    have "span c d s = rev (dropWhile (\<lambda>x. x \<noteq> d) (rev s'))"
      by (simp add: span_def s'_def)
    also have "\<dots> = take (length s' - k) s'"
      unfolding k' by (rule rev_dropWhile_rev)
    finally show ?thesis using sl s by simp
  next
    case False
    then have "takeWhile (\<lambda>x. x \<noteq> d) (rev s' @ rev pre)
                 = rev s' @ takeWhile (\<lambda>x. x \<noteq> d) (rev pre)"
      by (intro takeWhile_append2) auto
    moreover have "rev s = rev s' @ rev pre" by (subst s) simp
    ultimately have "takeWhile (\<lambda>x. x \<noteq> d) (rev s) = rev s' @ takeWhile (\<lambda>x. x \<noteq> d) (rev pre)"
      by simp
    then have "length s' \<le> k" by (simp add: k_def)
    with sl s have "slice s (find s c) (rfind s d + 1) = []" by simp
    moreover have "span c d s = rev (dropWhile (\<lambda>x. x \<noteq> d) (rev s'))"
      by (simp add: span_def s'_def)
    with False have "span c d s = []"
      by (simp add: dropWhile_absent)
    ultimately show ?thesis by simp
  qed
qed

lemma span_between:
  "opn \<notin> set pre \<Longrightarrow> cls \<notin> set post \<Longrightarrow>
   span opn cls (pre @ [opn] @ mid @ [cls] @ post) = [opn] @ mid @ [cls]"
  by (simp add: span_def dropWhile_append3 dropWhile_absent)

lemma span_hd:
  assumes "span opn cls s \<noteq> []"
  shows "hd (span opn cls s) = opn"
proof -
  define s' where "s' = dropWhile (\<lambda>c. c \<noteq> opn) s"
  define n where "n = length s' - length (takeWhile (\<lambda>c. c \<noteq> cls) (rev s'))"
  have "span opn cls s = rev (dropWhile (\<lambda>c. c \<noteq> cls) (rev s'))"
    by (simp add: span_def s'_def)
  then have sp: "span opn cls s = take n s'"
    unfolding n_def by (simp only: rev_dropWhile_rev)
  with assms have ne: "s' \<noteq> []" and n: "0 < n" by auto
  from ne have "hd s' = opn"
    unfolding s'_def using hd_dropWhile [of "\<lambda>c. c \<noteq> opn" s] by simp
  with sp n ne show ?thesis by (cases s'; cases n) auto
qed

lemma delimiters:
  "(if ty = py_list then CHR ''['' else CHR ''{'') = open_delimiter ty"
  "(if ty = py_list then CHR '']'' else CHR ''}'') = close_delimiter ty"
  "(if ty = py_list then PList [] else PDict []) = empty_container ty"
  by (cases ty; simp)+

lemma extract_struct_found:
  assumes "open_delimiter ty \<in> set s" and "close_delimiter ty \<in> set s"
  shows "extract_struct le s ty =
     (case le (span (open_delimiter ty) (close_delimiter ty) s) of
        Inr v \<Rightarrow>
          if is_list_or_dict v then Inr v
          else Inl (Exception (''Error while extracting and parsing the '' @ format_data_type ty
                   @ '': The extracted structure is not a '' @ format_data_type ty @ ''.''))
      | Inl (ValueError m) \<Rightarrow>
          Inl (Exception (''Error while extracting and parsing the '' @ format_data_type ty @ '': '' @ m))
      | Inl (SyntaxError m) \<Rightarrow>
          Inl (Exception (''Error while extracting and parsing the '' @ format_data_type ty @ '': '' @ m))
      | Inl e \<Rightarrow> Inl e)"
proof -
  have f: "find s (open_delimiter ty) \<noteq> - 1" "rfind s (close_delimiter ty) \<noteq> - 1"
    using assms takeWhile_present [of "close_delimiter ty" "rev s"]
    by (auto simp: find_def rfind_def)
  show ?thesis
    unfolding extract_struct_def delimiters Let_def
    using f slice_span [OF assms]
    by (auto split: sum.splits exn.splits)
qed

lemma extract_struct_not_found:
  assumes "open_delimiter ty \<notin> set s \<or> close_delimiter ty \<notin> set s"
  shows "extract_struct le s ty = Inr (empty_container ty)"
  unfolding extract_struct_def delimiters Let_def
  using assms by (auto simp: find_def rfind_def)

text \<open>
  C8. When the text has an opening and a closing delimiter of the shape asked for,
  \<open>extract_struct\<close> evaluates the span from the first opening delimiter to the last
  closing delimiter and returns the list or dictionary the literal parser gives for it;
  when a delimiter is missing it returns the empty container of that shape. For the text
  \<open>prefix [1, 2, [3, "a"], {"k": 4}] suffix\<close> the span is the bracketed list, so the
  result is the nested list as soon as the literal parser reads that list.
\<close>

theorem extract_struct_span:
  \<open>(open_delimiter ty \<in> set s \<and> close_delimiter ty \<in> set s \<longrightarrow>
      (\<forall>v. le (span (open_delimiter ty) (close_delimiter ty) s) = Inr v \<and> is_list_or_dict v
            \<longrightarrow> extract_struct le s ty = Inr v))
   \<and> (\<forall>pre mid post.
         s = pre @ [open_delimiter ty] @ mid @ [close_delimiter ty] @ post
         \<and> open_delimiter ty \<notin> set pre \<and> close_delimiter ty \<notin> set post
         \<longrightarrow> span (open_delimiter ty) (close_delimiter ty) s
               = [open_delimiter ty] @ mid @ [close_delimiter ty])
   \<and> (open_delimiter ty \<notin> set s \<or> close_delimiter ty \<notin> set s \<longrightarrow>
        extract_struct le s ty = Inr (empty_container ty))
   \<and> (le ''[1, 2, [3, "a"], {"k": 4}]''
          = Inr (PList [PInt 1, PInt 2, PList [PInt 3, PStr ''a''], PDict [(PStr ''k'', PInt 4)]])
        \<longrightarrow> extract_struct le ''prefix [1, 2, [3, "a"], {"k": 4}] suffix'' py_list
          = Inr (PList [PInt 1, PInt 2, PList [PInt 3, PStr ''a''], PDict [(PStr ''k'', PInt 4)]]))\<close>
proof (intro conjI impI allI)
  fix v
  assume "open_delimiter ty \<in> set s \<and> close_delimiter ty \<in> set s"
    and "le (span (open_delimiter ty) (close_delimiter ty) s) = Inr v \<and> is_list_or_dict v"
  then show "extract_struct le s ty = Inr v"
    by (simp add: extract_struct_found)
next
  fix pre mid post
  assume "s = pre @ [open_delimiter ty] @ mid @ [close_delimiter ty] @ post
         \<and> open_delimiter ty \<notin> set pre \<and> close_delimiter ty \<notin> set post"
  then show "span (open_delimiter ty) (close_delimiter ty) s
               = [open_delimiter ty] @ mid @ [close_delimiter ty]"
    using span_between by blast
next
  assume "open_delimiter ty \<notin> set s \<or> close_delimiter ty \<notin> set s"
  then show "extract_struct le s ty = Inr (empty_container ty)"
    by (rule extract_struct_not_found)
next
  have sp: \<open>span CHR ''['' CHR '']'' ''prefix [1, 2, [3, "a"], {"k": 4}] suffix''
             = ''[1, 2, [3, "a"], {"k": 4}]''\<close>
    by (simp add: span_def)
  assume \<open>le ''[1, 2, [3, "a"], {"k": 4}]''
          = Inr (PList [PInt 1, PInt 2, PList [PInt 3, PStr ''a''], PDict [(PStr ''k'', PInt 4)]])\<close>
  then show \<open>extract_struct le ''prefix [1, 2, [3, "a"], {"k": 4}] suffix'' py_list
          = Inr (PList [PInt 1, PInt 2, PList [PInt 3, PStr ''a''], PDict [(PStr ''k'', PInt 4)]])\<close>
    using extract_struct_found [of py_list \<open>''prefix [1, 2, [3, "a"], {"k": 4}] suffix''\<close> le]
    by (simp add: sp)
qed

theorem extract_struct_span_witness:
  \<open>extract_struct
     (\<lambda>s. if s = ''[1, 2, [3, "a"], {"k": 4}]''
          then Inr (PList [PInt 1, PInt 2, PList [PInt 3, PStr ''a''],
                           PDict [(PStr ''k'', PInt 4)]])
          else Inl (SyntaxError ''invalid syntax''))
     ''prefix [1, 2, [3, "a"], {"k": 4}] suffix'' py_list
   = Inr (PList [PInt 1, PInt 2, PList [PInt 3, PStr ''a''], PDict [(PStr ''k'', PInt 4)]])
   \<and> extract_struct (\<lambda>s. Inl (SyntaxError ''invalid syntax'')) ''no brackets here'' py_dict
       = Inr (PDict [])\<close>
proof -
  let ?le = \<open>\<lambda>s. if s = ''[1, 2, [3, "a"], {"k": 4}]''
          then Inr (PList [PInt 1, PInt 2, PList [PInt 3, PStr ''a''],
                           PDict [(PStr ''k'', PInt 4)]])
          else Inl (SyntaxError ''invalid syntax'')\<close>
  have a: \<open>extract_struct ?le ''prefix [1, 2, [3, "a"], {"k": 4}] suffix'' py_list
     = Inr (PList [PInt 1, PInt 2, PList [PInt 3, PStr ''a''], PDict [(PStr ''k'', PInt 4)]])\<close>
    using extract_struct_span [of py_list "[]" ?le] by simp
  have b: "extract_struct (\<lambda>s. Inl (SyntaxError ''invalid syntax'')) ''no brackets here'' py_dict
       = Inr (PDict [])"
    using extract_struct_span
      [of py_dict "''no brackets here''" "\<lambda>s. Inl (SyntaxError ''invalid syntax'')"]
    by simp
  from a b show ?thesis by simp
qed

text \<open>
  With the type \<open>list\<close> or \<open>dict\<close> as \<open>data_type\<close>, a span that parses to another shape
  is refused, for a literal parser that reads no dictionary from a text beginning with a
  square bracket, no list from a text beginning with a brace and nothing from the empty
  text: the span then begins with the delimiter of the shape asked for, so the test for
  a list or a dictionary decides as a test for that shape would.
\<close>

lemma extract_struct_type_wrong_shape:
  assumes "literal_eval_brackets le"
    and "ty = py_list \<or> ty = py_dict"
    and "open_delimiter ty \<in> set s" and "close_delimiter ty \<in> set s"
    and "le (span (open_delimiter ty) (close_delimiter ty) s) = Inr v"
    and "\<not> has_shape ty v"
  shows "extract_struct le s ty =
           Inl (Exception (''Error while extracting and parsing the '' @ format_data_type ty
                  @ '': The extracted structure is not a '' @ format_data_type ty @ ''.''))"
proof -
  let ?sp = "span (open_delimiter ty) (close_delimiter ty) s"
  from assms(1,5) have ne: "?sp \<noteq> []"
    and l: "hd ?sp = CHR ''['' \<Longrightarrow> \<forall>kvs. v \<noteq> PDict kvs"
    and d: "hd ?sp = CHR ''{'' \<Longrightarrow> \<forall>xs. v \<noteq> PList xs"
    unfolding literal_eval_brackets_def by blast+
  from span_hd [OF ne] have hd: "hd ?sp = open_delimiter ty" .
  have "\<not> is_list_or_dict v"
    using assms(2,6) l d hd by (cases v) auto
  with assms(3,4,5) show ?thesis by (simp add: extract_struct_found)
qed


section \<open>Properties of the task pipeline\<close>

lemmas pipeline_defs = update_tasks_def merge_def run_new_tasks_def update_requirements_def
  save_pdf_def save_as_def repo_get_def Let_def

lemma template_is_merge_context: "NEW_REQ_TEMPLATE existing upstream = merge_context existing upstream"
  by (simp add: NEW_REQ_TEMPLATE_def merge_context_def nl_def)

lemma update_tasks_missing:
  "D f = None \<Longrightarrow> update_tasks E D f st = (Inl AttributeError, st)"
  by (auto simp: pipeline_defs split: option.splits sum.splits prod.splits)

lemma update_tasks_other:
  "g \<noteq> f \<Longrightarrow> tasks_files (snd (update_tasks E D f st)) g = tasks_files st g"
  by (auto simp: pipeline_defs split: option.splits sum.splits prod.splits)

lemma update_tasks_made:
  "D f = Some upstream \<Longrightarrow>
   calls (snd (update_tasks E D f st)) = calls st @ [expected_call (tasks_files st) f upstream]"
  by (auto simp: pipeline_defs expected_call_def template_is_merge_context
      split: option.splits sum.splits prod.splits)

lemma update_tasks_fill_raises:
  "D f = Some upstream \<Longrightarrow>
   fill E (length (calls st)) (call_context (tasks_files st) f upstream) = Inl e \<Longrightarrow>
   fst (update_tasks E D f st) = Inl e"
  by (auto simp: pipeline_defs call_context_def template_is_merge_context
      split: option.splits sum.splits prod.splits)

lemma update_tasks_packages_raise:
  "D f = Some upstream \<Longrightarrow>
   fill E (length (calls st)) (call_context (tasks_files st) f upstream) = Inr produced \<Longrightarrow>
   required_packages E produced = Inl e \<Longrightarrow>
   fst (update_tasks E D f st) = Inl e"
  by (auto simp: pipeline_defs call_context_def template_is_merge_context
      split: option.splits sum.splits prod.splits)

lemma update_tasks_returns:
  "D f = Some upstream \<Longrightarrow>
   fill E (length (calls st)) (call_context (tasks_files st) f upstream) = Inr produced \<Longrightarrow>
   required_packages E produced = Inr packages \<Longrightarrow>
   (\<exists>d. fst (update_tasks E D f st) = Inr d)
   \<and> tasks_files (snd (update_tasks E D f st)) = (tasks_files st)(f \<mapsto> produced)"
  by (auto simp: pipeline_defs call_context_def template_is_merge_context
      split: option.splits sum.splits prod.splits)

lemma designs_append:
  "update_changed_designs E D (xs @ ys) docs st =
     (case update_changed_designs E D xs docs st of
        (Inl e, st') \<Rightarrow> (Inl e, st')
      | (Inr docs', st') \<Rightarrow> update_changed_designs E D ys docs' st')"
  by (induction xs arbitrary: docs st) (auto split: prod.splits sum.splits)

lemma designs_keys:
  "update_changed_designs E D fs docs st = (Inr docs', st') \<Longrightarrow>
   fst ` set docs' = fst ` set docs \<union> set fs"
  by (induction fs arbitrary: docs st) (auto simp: dom_update split: prod.splits sum.splits)

lemma tasks_as_designs:
  "update_changed_tasks E D fs docs st =
     update_changed_designs E D (unseen (fst ` set docs) fs) docs st"
proof (induction fs arbitrary: docs st)
  case Nil
  then show ?case by simp
next
  case (Cons f fs)
  have keys: "fst ` set (AList.update f d docs) = insert f (fst ` set docs)" for d
    by (simp add: dom_update)
  show ?case
    by (cases "f \<in> fst ` set docs")
       (auto simp: Cons.IH keys split: prod.splits sum.splits)
qed

lemma run_as_queue:
  "run E D ds ts st = update_changed_designs E D (processing_queue ds ts) [] st"
proof (cases "update_changed_designs E D ds [] st")
  case (Pair r st')
  show ?thesis
  proof (cases r)
    case (Inl e)
    with Pair show ?thesis
      by (simp add: run_def processing_queue_def designs_append)
  next
    case (Inr docs)
    with Pair designs_keys [of E D ds "[]" st docs st'] have "fst ` set docs = set ds" by simp
    with Pair Inr show ?thesis
      by (simp add: run_def processing_queue_def designs_append tasks_as_designs)
  qed
qed

lemma designs_frame:
  "update_changed_designs E D fs docs st = (r, st') \<Longrightarrow>
   (\<forall>g. g \<notin> set fs \<longrightarrow> tasks_files st' g = tasks_files st g)
   \<and> (\<exists>cs. calls st' = calls st @ cs \<and> length cs \<le> length fs)"
proof (induction fs arbitrary: docs st)
  case Nil
  then show ?case by simp
next
  case (Cons f fs)
  obtain r1 st1 where step: "update_tasks E D f st = (r1, st1)" by (cases "update_tasks E D f st")
  have other: "g \<noteq> f \<Longrightarrow> tasks_files st1 g = tasks_files st g" for g
    using update_tasks_other [of g f E D st] step by simp
  obtain c1 where c1: "calls st1 = calls st @ c1" "length c1 \<le> 1"
  proof (cases "D f")
    case None
    with step update_tasks_missing [of D f E st] have "calls st1 = calls st @ []" by simp
    then show ?thesis using that by force
  next
    case (Some upstream)
    from update_tasks_made [of D f upstream E st] Some step
    have "calls st1 = calls st @ [expected_call (tasks_files st) f upstream]" by simp
    then show ?thesis using that by force
  qed
  show ?case
  proof (cases r1)
    case (Inl e)
    with Cons.prems step have "st' = st1" by simp
    with other c1 show ?thesis by auto
  next
    case (Inr d)
    with Cons.prems step have
      "update_changed_designs E D fs (AList.update f d docs) st1 = (r, st')" by simp
    from Cons.IH [OF this] obtain cs where
      "\<forall>g. g \<notin> set fs \<longrightarrow> tasks_files st' g = tasks_files st1 g"
      "calls st' = calls st1 @ cs" "length cs \<le> length fs" by blast
    with other c1 have "(\<forall>g. g \<notin> set (f # fs) \<longrightarrow> tasks_files st' g = tasks_files st g)
      \<and> calls st' = calls st @ (c1 @ cs) \<and> length (c1 @ cs) \<le> length (f # fs)"
      by auto
    then show ?thesis by blast
  qed
qed

lemma designs_expected:
  "update_changed_designs E D fs docs st = (r, st') \<Longrightarrow>
   calls st' = calls st @ expected_calls E D (tasks_files st) (length (calls st)) fs
   \<and> ((\<exists>docs'. r = Inr docs') \<longrightarrow>
        length (expected_calls E D (tasks_files st) (length (calls st)) fs) = length fs)"
proof (induction fs arbitrary: docs st)
  case Nil
  then show ?case by simp
next
  case (Cons f fs)
  obtain r1 st1 where step: "update_tasks E D f st = (r1, st1)"
    by (cases "update_tasks E D f st")
  show ?case
  proof (cases "D f")
    case None
    with step Cons.prems update_tasks_missing [of D f E st] show ?thesis by auto
  next
    case (Some upstream)
    let ?ctx = "call_context (tasks_files st) f upstream"
    let ?made = "expected_call (tasks_files st) f upstream"
    from update_tasks_made [of D f upstream E st] Some step
    have made: "calls st1 = calls st @ [?made]" by simp
    show ?thesis
    proof (cases "fill E (length (calls st)) ?ctx")
      case (Inl e)
      from update_tasks_fill_raises [of D f upstream E st e] Some Inl step have "r1 = Inl e" by simp
      with Cons.prems step have "st' = st1" "r = Inl e" by simp_all
      with made Some Inl show ?thesis by simp
    next
      case (Inr produced)
      show ?thesis
      proof (cases "required_packages E produced")
        case e: (Inl e)
        from update_tasks_packages_raise [of D f upstream E st produced e] Some Inr e step have "r1 = Inl e" by simp
        with Cons.prems step have "st' = st1" "r = Inl e" by simp_all
        with made Some Inr e show ?thesis by simp
      next
        case p: (Inr packages)
        from update_tasks_returns [of D f upstream E st produced packages] Some Inr p step
        obtain d where
          d: "r1 = Inr d" and tf: "tasks_files st1 = (tasks_files st)(f \<mapsto> produced)"
          by auto
        from d Cons.prems step have
          "update_changed_designs E D fs (AList.update f d docs) st1 = (r, st')" by simp
        from Cons.IH [OF this] have
          "calls st' = calls st1 @ expected_calls E D (tasks_files st1) (length (calls st1)) fs"
          "(\<exists>docs'. r = Inr docs') \<longrightarrow>
             length (expected_calls E D (tasks_files st1) (length (calls st1)) fs) = length fs"
          by simp_all
        with made tf Some Inr p show ?thesis by simp
      qed
    qed
  qed
qed

text \<open>
  C1, as amended. The calls that \<open>run\<close> adds to the log are the expected calls of the
  processing queue: in the order of the queue, one call for each file name it reaches,
  decided by the task repository as it is at that moment. The call is \<open>_run_new_tasks\<close>
  on the content of the system design when the task repository has no document of that
  name, and otherwise \<open>_merge\<close> on the text that puts the task document under the
  heading \<open>### Legacy Content\<close> and the system design under the heading
  \<open>### New Requirements\<close>. A file name is reached when every earlier file name of the
  queue has a system design and its call and the reading of the packages raised nothing;
  no call is made for the other file names. When \<open>run\<close> returns its mapping, every file
  name of the queue has been reached.
\<close>

theorem run_generates_or_merges:
  assumes "run E D ds ts st = (r, st')"
  shows "calls st' =
           calls st @ expected_calls E D (tasks_files st) (length (calls st))
                        (processing_queue ds ts)
         \<and> ((\<exists>docs. r = Inr docs) \<longrightarrow>
              length (expected_calls E D (tasks_files st) (length (calls st))
                        (processing_queue ds ts))
                = length (processing_queue ds ts))"
  using designs_expected [of E D "processing_queue ds ts" "[]" st r st'] assms
  by (simp add: run_as_queue)

theorem run_generates_or_merges_witness:
  "calls (snd (run example_env [''a.md'' \<mapsto> ''design A'', ''b.md'' \<mapsto> ''design B'']
                 [''a.md''] [''a.md'', ''b.md''] example_state))
     = [Run_new_tasks ''design A'',
        Merge ([CHR 0x0A] @ ''### Legacy Content'' @ [CHR 0x0A] @ ''old B'' @ [CHR 0x0A, CHR 0x0A]
               @ ''### New Requirements'' @ [CHR 0x0A] @ ''design B'' @ [CHR 0x0A])]
   \<and> (\<exists>docs. fst (run example_env [''a.md'' \<mapsto> ''design A'', ''b.md'' \<mapsto> ''design B'']
                       [''a.md''] [''a.md'', ''b.md''] example_state) = Inr docs
              \<and> map fst docs = [''a.md'', ''b.md''])"
proof -
  define D where "D = [''a.md'' \<mapsto> ''design A'', ''b.md'' \<mapsto> ''design B'']"
  define result where
    "result = run example_env D [''a.md''] [''a.md'', ''b.md''] example_state"
  have queue: "processing_queue [''a.md''] [''a.md'', ''b.md''] = [''a.md'', ''b.md'']"
    by (simp add: processing_queue_def)
  have expected:
    "expected_calls example_env D (tasks_files example_state) (length (calls example_state))
       [''a.md'', ''b.md'']
     = [Run_new_tasks ''design A'',
        Merge ([CHR 0x0A] @ ''### Legacy Content'' @ [CHR 0x0A] @ ''old B'' @ [CHR 0x0A, CHR 0x0A]
               @ ''### New Requirements'' @ [CHR 0x0A] @ ''design B'' @ [CHR 0x0A])]"
    by (simp add: D_def example_env_def example_state_def expected_call_def call_context_def
        merge_context_def)
  have "map fst (projr (fst result)) = [''a.md'', ''b.md''] \<and> \<not> isl (fst result)"
    unfolding result_def D_def
    by (simp add: run_def pipeline_defs example_env_def example_state_def splitlines_def)
  then have returns: "\<exists>docs. fst result = Inr docs \<and> map fst docs = [''a.md'', ''b.md'']"
    by (cases "fst result") auto
  have "result = (fst result, snd result)" by simp
  then have "run example_env D [''a.md''] [''a.md'', ''b.md''] example_state
               = (fst result, snd result)"
    by (simp add: result_def)
  from run_generates_or_merges [OF this]
  have "calls (snd result) = calls example_state @
          expected_calls example_env D (tasks_files example_state) (length (calls example_state))
            [''a.md'', ''b.md'']"
    unfolding queue by simp
  then have "calls (snd result)
     = [Run_new_tasks ''design A'',
        Merge ([CHR 0x0A] @ ''### Legacy Content'' @ [CHR 0x0A] @ ''old B'' @ [CHR 0x0A, CHR 0x0A]
               @ ''### New Requirements'' @ [CHR 0x0A] @ ''design B'' @ [CHR 0x0A])]"
    unfolding expected by (simp add: example_state_def)
  with returns show ?thesis
    unfolding result_def D_def by simp
qed

theorem run_generates_or_merges_counterexample:
  "processing_queue [''x.md''] [''b.md''] = [''x.md'', ''b.md'']
   \<and> tasks_files example_state ''b.md'' = Some ''old B''
   \<and> fst (run example_env [''b.md'' \<mapsto> ''design B''] [''x.md''] [''b.md''] example_state)
       = Inl AttributeError
   \<and> calls (snd (run example_env [''b.md'' \<mapsto> ''design B''] [''x.md''] [''b.md'']
                    example_state)) = []"
  by (simp add: processing_queue_def run_def update_tasks_missing example_state_def)

text \<open>
  C2, as amended. When the system design of a file name of the processing queue is
  absent, \<open>run\<close> raises and returns no mapping: the exception leaves the whole batch.
  No file name from that one on is processed: the task repository is unchanged at every
  file name that does not come earlier in the queue, and at most one call was made for
  each earlier file name.
\<close>

theorem run_aborts_on_missing_design:
  assumes "processing_queue ds ts = pre @ f # rest" and "D f = None"
    and "run E D ds ts st = (r, st')"
  shows "(\<exists>e. r = Inl e)
       \<and> (\<forall>g. g \<notin> set pre \<longrightarrow> tasks_files st' g = tasks_files st g)
       \<and> (\<exists>cs. calls st' = calls st @ cs \<and> length cs \<le> length pre)"
proof -
  from assms(1,3) have whole:
    "update_changed_designs E D (pre @ f # rest) [] st = (r, st')"
    by (simp add: run_as_queue)
  obtain r1 st1 where first: "update_changed_designs E D pre [] st = (r1, st1)"
    by (cases "update_changed_designs E D pre [] st")
  note frame = designs_frame [OF first]
  show ?thesis
  proof (cases r1)
    case (Inl e)
    with whole first have "r = Inl e" "st' = st1" by (simp_all add: designs_append)
    with frame show ?thesis by simp
  next
    case (Inr docs)
    with whole first assms(2) have "r = Inl AttributeError" "st' = st1"
      by (simp_all add: designs_append update_tasks_missing)
    with frame show ?thesis by simp
  qed
qed

theorem run_aborts_on_missing_design_witness:
  "(\<exists>e. fst (run example_env [''c.md'' \<mapsto> ''design C''] [''a.md'', ''c.md''] []
              example_state) = Inl e)
   \<and> tasks_files (snd (run example_env [''c.md'' \<mapsto> ''design C''] [''a.md'', ''c.md''] []
                         example_state)) ''c.md'' = None
   \<and> calls (snd (run example_env [''c.md'' \<mapsto> ''design C''] [''a.md'', ''c.md''] []
                    example_state)) = []"
proof -
  let ?D = "[''c.md'' \<mapsto> ''design C'']"
  let ?run = "run example_env ?D [''a.md'', ''c.md''] [] example_state"
  have queue: "processing_queue [''a.md'', ''c.md''] [] = [] @ ''a.md'' # [''c.md'']"
    by (simp add: processing_queue_def)
  have missing: "?D ''a.md'' = None" by simp
  have "?run = (fst ?run, snd ?run)" by simp
  from run_aborts_on_missing_design [OF queue missing this]
  show ?thesis by (simp add: example_state_def)
qed

theorem run_aborts_on_missing_design_counterexample:
  "fst (run example_env [''b.md'' \<mapsto> ''design B''] [''a.md'', ''b.md''] [] example_state)
     = Inl AttributeError
   \<and> calls (snd (run example_env [''b.md'' \<mapsto> ''design B''] [''a.md'', ''b.md''] []
                    example_state)) = []
   \<and> tasks_files (snd (run example_env [''b.md'' \<mapsto> ''design B''] [''a.md'', ''b.md''] []
                         example_state)) ''b.md'' = Some ''old B''"
  by (simp add: run_def update_tasks_missing example_state_def)

text \<open>
  C7, as amended. When the package list can be read from the task document and a set
  is iterated without repetition, \<open>_update_requirements\<close> saves the lines of a list
  without repetition whose elements are all the new packages, the empty string included
  when it is one of them, together with the non-empty lines of the old requirements
  file; the old content is empty when there is no such file, and nothing is raised.
\<close>

theorem update_requirements_union:
  assumes "required_packages E (content doc) = Inr new"
    and "\<And>xs. distinct (set_order E xs) \<and> set (set_order E xs) = set xs"
  shows "\<exists>entries.
           update_requirements E doc st =
             (Inr (), st\<lparr>root_files := (root_files st)
                        (PACKAGE_REQUIREMENTS_FILENAME E \<mapsto> join [nl] entries)\<rparr>)
           \<and> distinct entries
           \<and> set entries =
               set new \<union> {l \<in> set (splitlines (case root_files st (PACKAGE_REQUIREMENTS_FILENAME E) of
                                                   None \<Rightarrow> [] | Some old \<Rightarrow> old)). l \<noteq> []}"
proof -
  let ?old = "case root_files st (PACKAGE_REQUIREMENTS_FILENAME E) of None \<Rightarrow> [] | Some old \<Rightarrow> old"
  let ?entries = "set_order E (new @ filter (\<lambda>pkg. pkg \<noteq> []) (splitlines ?old))"
  have "update_requirements E doc st =
          (Inr (), st\<lparr>root_files := (root_files st)
                     (PACKAGE_REQUIREMENTS_FILENAME E \<mapsto> join [nl] ?entries)\<rparr>)"
    using assms(1)
    by (auto simp: update_requirements_def repo_get_def Let_def split: option.splits)
  moreover have "distinct ?entries" using assms(2) by blast
  moreover have "set ?entries = set new \<union> {l \<in> set (splitlines ?old). l \<noteq> []}"
    using assms(2) by auto
  ultimately show ?thesis by blast
qed

theorem update_requirements_union_witness:
  "\<exists>entries.
     root_files
       (snd (update_requirements
               (example_env\<lparr>required_packages := (\<lambda>json. Inr [''b'', ''c''])\<rparr>)
               \<lparr>root_path = ''docs/tasks'', filename = ''a.md'', content = ''{}''\<rparr>
               (example_state\<lparr>root_files := [''requirements.txt'' \<mapsto> ''a'' @ [nl] @ ''b'']\<rparr>)))
       ''requirements.txt'' = Some (join [nl] entries)
     \<and> distinct entries \<and> set entries = {''a'', ''b'', ''c''}"
proof -
  define E where "E = example_env\<lparr>required_packages := (\<lambda>json. Inr [''b'', ''c''])\<rparr>"
  define doc where "doc = \<lparr>root_path = ''docs/tasks'', filename = ''a.md'', content = ''{}''\<rparr>"
  define st where
    "st = example_state\<lparr>root_files := [''requirements.txt'' \<mapsto> ''a'' @ [nl] @ ''b'']\<rparr>"
  have packages: "required_packages E (content doc) = Inr [''b'', ''c'']"
    by (simp add: E_def)
  have order: "distinct (set_order E xs) \<and> set (set_order E xs) = set xs" for xs
    by (simp add: E_def example_env_def)
  have name: "PACKAGE_REQUIREMENTS_FILENAME E = ''requirements.txt''"
    by (simp add: E_def example_env_def)
  have old: "root_files st ''requirements.txt'' = Some (''a'' @ [nl] @ ''b'')"
    by (simp add: st_def)
  have lines: "splitlines (''a'' @ [nl] @ ''b'') = [''a'', ''b'']"
    by (simp add: splitlines_def is_linebreak_def nl_def)
  from update_requirements_union [of E doc "[''b'', ''c'']" st, OF packages order]
  obtain entries where
    saved: "update_requirements E doc st =
       (Inr (), st\<lparr>root_files := (root_files st)
                  (PACKAGE_REQUIREMENTS_FILENAME E \<mapsto> join [nl] entries)\<rparr>)" and
    d: "distinct entries" and
    elems: "set entries = set [''b'', ''c''] \<union>
       {l \<in> set (splitlines (case root_files st (PACKAGE_REQUIREMENTS_FILENAME E) of
                               None \<Rightarrow> [] | Some old \<Rightarrow> old)). l \<noteq> []}"
    by blast
  from saved have saved_file: "root_files (snd (update_requirements E doc st)) ''requirements.txt''
               = Some (join [nl] entries)"
    by (simp add: name)
  from elems have "set entries = set [''b'', ''c''] \<union> {l \<in> set [''a'', ''b'']. l \<noteq> []}"
    unfolding name old option.case lines .
  also have "\<dots> = {''a'', ''b'', ''c''}" by auto
  finally have "set entries = {''a'', ''b'', ''c''}" .
  with saved_file d show ?thesis unfolding E_def doc_def st_def by blast
qed

theorem update_requirements_union_counterexample:
  "root_files
     (snd (update_requirements
             (example_env\<lparr>required_packages := (\<lambda>json. Inr [[], ''a''])\<rparr>)
             \<lparr>root_path = ''docs/tasks'', filename = ''a.md'', content = ''{}''\<rparr>
             example_state))
     ''requirements.txt'' = Some ([nl] @ ''a'')
   \<and> root_files
     (snd (update_requirements
             (example_env\<lparr>required_packages := (\<lambda>json. Inr [[], ''a'']),
                          set_order := rev \<circ> remdups\<rparr>)
             \<lparr>root_path = ''docs/tasks'', filename = ''a.md'', content = ''{}''\<rparr>
             example_state))
     ''requirements.txt'' = Some (''a'' @ [nl])"
  by (simp add: update_requirements_def repo_get_def example_env_def example_state_def
      splitlines_def)

end
